theory Spec2Isabelle
  imports Complex_Main "HOL-Library.AList"
begin

section \<open>The agent loop of dexter: data model\<close>

text \<open>
  The development embeds two source files of the repository: the agent loop
  (\<^verbatim>\<open>Agent.run\<close> with \<^verbatim>\<open>callModel\<close>, \<^verbatim>\<open>handleDirectResponse\<close>,
  \<^verbatim>\<open>manageContextThreshold\<close> and \<^verbatim>\<open>buildInitialPrompt\<close>) and the
  \<^verbatim>\<open>financial_search\<close> meta tool (\<^verbatim>\<open>createFinancialSearch\<close>).

  JavaScript strings are modelled as \<open>string\<close>, counts as \<open>nat\<close>. An async generator is
  modelled by the list of what it does, in order: every \<^verbatim>\<open>yield\<close> and every call of the
  language model is one entry of the list.

  The loop is embedded twice. Section \<open>The agent loop\<close> embeds it under standing
  conditions, which hold in every run they describe: the model call returns or throws
  (its exception is caught by the loop), every other collaborator returns, the tool
  executor completes after finitely many events, the iteration budget is an integer (and
  so is the counter, exactly), and the consumer requests events until the generator
  completes. Section \<open>The loop with faults\<close> embeds the loop again without the first four
  conditions: a collaborator may throw or never return at every place where the source
  calls one, the budget is any JavaScript number, the counter is a double. Lemma
  \<open>runJS_refines\<close> shows that the two embeddings give the same run whenever the standing
  conditions hold.
\<close>

subsection \<open>Messages of the language model\<close>

record tool_call =
  call_id :: string
  call_name :: string
  call_args :: string

text \<open>
  The \<^verbatim>\<open>AIMessage\<close> of the model library, reduced to the two parts the loop reads: its
  visible text (what \<^verbatim>\<open>extractTextContent\<close> returns) and its tool calls (which
  \<^verbatim>\<open>hasToolCalls\<close> tests for).
\<close>

record ai_message =
  content :: string
  tool_calls :: "tool_call list"

text \<open>The type \<^verbatim>\<open>AIMessage | string\<close> of a model response.\<close>

datatype response = Text string | Message ai_message

text \<open>
  Modelled from the spec: \<^verbatim>\<open>extractTextContent\<close> and \<^verbatim>\<open>hasToolCalls\<close> of
  \<^verbatim>\<open>utils/ai-message.js\<close>, which is not among the sources: the visible text of the
  response, and whether the response carries tool calls.
\<close>

definition extractTextContent :: "ai_message \<Rightarrow> string" where
  "extractTextContent m = content m"

definition hasToolCalls :: "ai_message \<Rightarrow> bool" where
  "hasToolCalls m = (tool_calls m \<noteq> [])"

record token_usage =
  promptTokens :: nat
  completionTokens :: nat
  totalTokens :: nat

subsection \<open>Scratchpad\<close>

datatype outcome = Succeeded string | Failed string

record tool_call_record =
  tool :: string
  args :: string
  result :: outcome

text \<open>
  Modelled from the spec: the state of the \<^verbatim>\<open>Scratchpad\<close> class (\<^verbatim>\<open>agent/scratchpad.js\<close>
  is not among the sources). The scratchpad is the chronological sequence of its entries,
  each a thinking note or a tool-use record; a tool-use record carries a flag that tells
  whether its full payload is still retained.
\<close>

datatype entry = ThinkingNote string | ToolUse tool_call_record bool

type_synonym scratchpad = "entry list"

text \<open>
  Modelled from the spec: \<^verbatim>\<open>addThinking\<close> and \<^verbatim>\<open>addToolResult\<close> of the scratchpad append
  an entry; a new tool-use record retains its payload.
\<close>

definition addThinking :: "string \<Rightarrow> scratchpad \<Rightarrow> scratchpad" where
  "addThinking text sp = sp @ [ThinkingNote text]"

definition addToolResult :: "string \<Rightarrow> string \<Rightarrow> outcome \<Rightarrow> scratchpad \<Rightarrow> scratchpad" where
  "addToolResult name arguments out sp =
     sp @ [ToolUse \<lparr>tool = name, args = arguments, result = out\<rparr> True]"

text \<open>
  Modelled from the spec: the tool-use records that still retain their payload, the
  complete list of tool-call records (\<^verbatim>\<open>getToolCallRecords\<close>, independent of pruning), and
  the thinking notes, each in chronological order.
\<close>

fun retainedRecords :: "scratchpad \<Rightarrow> tool_call_record list" where
  "retainedRecords [] = []"
| "retainedRecords (ThinkingNote t # es) = retainedRecords es"
| "retainedRecords (ToolUse r full # es) =
     (if full then r # retainedRecords es else retainedRecords es)"

fun getToolCallRecords :: "scratchpad \<Rightarrow> tool_call_record list" where
  "getToolCallRecords [] = []"
| "getToolCallRecords (ThinkingNote t # es) = getToolCallRecords es"
| "getToolCallRecords (ToolUse r full # es) = r # getToolCallRecords es"

fun thinkingNotes :: "scratchpad \<Rightarrow> string list" where
  "thinkingNotes [] = []"
| "thinkingNotes (ThinkingNote t # es) = t # thinkingNotes es"
| "thinkingNotes (ToolUse r full # es) = thinkingNotes es"

text \<open>
  Modelled from the spec: the two read projections of the scratchpad,
  \<^verbatim>\<open>getToolResults\<close> (the retained payloads) and \<^verbatim>\<open>formatToolUsageForPrompt\<close> (name and
  arguments of every tool call ever made). How one record is rendered is not fixed by
  the spec; the rendering is a parameter.
\<close>

definition getToolResults :: "(tool_call_record \<Rightarrow> string) \<Rightarrow> scratchpad \<Rightarrow> string" where
  "getToolResults renderFull sp = concat (map renderFull (retainedRecords sp))"

definition formatToolUsageForPrompt ::
    "(string \<Rightarrow> string \<Rightarrow> string) \<Rightarrow> scratchpad \<Rightarrow> string" where
  "formatToolUsageForPrompt renderCompact sp =
     concat (map (\<lambda>r. renderCompact (tool r) (args r)) (getToolCallRecords sp))"

text \<open>
  Modelled from the spec: \<^verbatim>\<open>clearOldestToolResults\<close> of the scratchpad keeps the payload
  of the most recent \<open>keepCount\<close> retained records and returns how many payloads it
  dropped (0 if no more than \<open>keepCount\<close> were retained); \<open>discardOldest n\<close> drops the
  payload of the \<open>n\<close> oldest records that still retain it. The keep-count is a natural
  number.
\<close>

fun discardOldest :: "nat \<Rightarrow> scratchpad \<Rightarrow> scratchpad" where
  "discardOldest n [] = []"
| "discardOldest n (ThinkingNote t # es) = ThinkingNote t # discardOldest n es"
| "discardOldest n (ToolUse r full # es) =
     (if full \<and> 0 < n then ToolUse r False # discardOldest (n - 1) es
      else ToolUse r full # discardOldest n es)"

definition clearOldestToolResults :: "nat \<Rightarrow> scratchpad \<Rightarrow> nat \<times> scratchpad" where
  "clearOldestToolResults keepCount sp =
     (let clearedCount = length (retainedRecords sp) - keepCount
      in (clearedCount, discardOldest clearedCount sp))"

subsection \<open>Token counter and run context\<close>

text \<open>
  Modelled from the spec: the \<^verbatim>\<open>TokenCounter\<close> class (not among the sources). A missing
  usage sample is a no-op; throughput is total tokens per elapsed second, 0 when no
  time has elapsed or no token was recorded. JavaScript doubles are read as reals.
\<close>

definition emptyUsage :: token_usage where
  "emptyUsage = \<lparr>promptTokens = 0, completionTokens = 0, totalTokens = 0\<rparr>"

definition addUsage :: "token_usage option \<Rightarrow> token_usage \<Rightarrow> token_usage" where
  "addUsage sample tc =
     (case sample of
        None \<Rightarrow> tc
      | Some u \<Rightarrow> \<lparr>promptTokens = promptTokens tc + promptTokens u,
                  completionTokens = completionTokens tc + completionTokens u,
                  totalTokens = totalTokens tc + totalTokens u\<rparr>)"

definition getUsage :: "token_usage \<Rightarrow> token_usage" where
  "getUsage tc = tc"

definition getTokensPerSecond :: "token_usage \<Rightarrow> int \<Rightarrow> real" where
  "getTokensPerSecond tc elapsedMs =
     (if elapsedMs \<le> 0 \<or> totalTokens tc = 0 then 0
      else real (totalTokens tc) / (real_of_int elapsedMs / 1000))"

record run_context =
  query :: string
  iteration :: int
  startTime :: int
  scratchpad :: scratchpad
  tokenCounter :: token_usage

text \<open>
  Modelled from the spec: \<^verbatim>\<open>createRunContext\<close> (\<^verbatim>\<open>agent/run-context.js\<close> is not among
  the sources): the counter starts at 0, the start time is set once, the scratchpad and
  the token counter are fresh.
\<close>

definition createRunContext :: "string \<Rightarrow> int \<Rightarrow> run_context" where
  "createRunContext q t =
     \<lparr>query = q, iteration = 0, startTime = t, scratchpad = [], tokenCounter = emptyUsage\<rparr>"

subsection \<open>Events\<close>

record done_event =
  answer :: string
  toolCalls :: "tool_call_record list"
  iterations :: int
  totalTime :: int
  tokenUsage :: "token_usage option"
  tokensPerSecond :: "real option"

text \<open>
  Modelled from the spec: the events of the tool executor (\<^verbatim>\<open>agent/tool-executor.js\<close> is
  not among the sources) are per-call progress events, opaque to the loop, and
  \<^verbatim>\<open>tool_denied\<close>.
\<close>

datatype tool_event = ToolProgress string | ToolDenied string

datatype agent_event =
    Thinking string
  | ToolEvent tool_event
  | ContextCleared nat nat
  | Done done_event

text \<open>
  What a run does, in order: it calls the model with a prompt, or it yields an event to
  its consumer.
\<close>

datatype action = CallModel string | Yield agent_event

text \<open>
  Modelled from the spec: what the tool executor does for one batch, in order: it
  records an outcome into the scratchpad, or it yields an event. It changes nothing
  else of the run context.
\<close>

datatype exec_step = Record string string outcome | Emit tool_event

subsection \<open>The agent and its collaborators\<close>

record llm_request =
  req_prompt :: string
  req_model :: string
  req_systemPrompt :: string
  req_tools :: "string list option"

record in_memory_history =
  hasMessages :: bool
  getRecentTurns :: "string list"

text \<open>
  The collaborators of the loop that are not among the sources are parameters:
  \<^item> \<open>callLlm k r\<close> is the outcome of the \<open>k\<close>-th model call of the run (counted from 0)
    on request \<open>r\<close>: \<open>Inl\<close> the message of the thrown error, \<open>Inr\<close> the response and the
    optional usage sample;
  \<^item> \<open>executeAll m c\<close> is what the tool executor does for the tool calls of message \<open>m\<close>
    in context \<open>c\<close>;
  \<^item> \<open>now k\<close> is the \<open>k\<close>-th reading of the clock in the run;
  \<^item> the error classification and formatting, the prompt builders, the token estimate
    and its two constants, and the rendering of scratchpad records.
\<close>

record env =
  callLlm :: "nat \<Rightarrow> llm_request \<Rightarrow> string + (response \<times> token_usage option)"
  isContextOverflowError :: "string \<Rightarrow> bool"
  formatUserFacingError :: "string \<Rightarrow> string"
  buildIterationPrompt :: "string \<Rightarrow> string \<Rightarrow> string \<Rightarrow> string"
  buildHistoryContext :: "string list \<Rightarrow> string \<Rightarrow> string"
  estimateTokens :: "string \<Rightarrow> nat"
  CONTEXT_THRESHOLD :: nat
  KEEP_TOOL_USES :: nat
  executeAll :: "ai_message \<Rightarrow> run_context \<Rightarrow> exec_step list"
  renderFull :: "tool_call_record \<Rightarrow> string"
  renderCompact :: "string \<Rightarrow> string \<Rightarrow> string"
  now :: "nat \<Rightarrow> int"

record agent =
  model :: string
  maxIterations :: int
  tools :: "string list"
  systemPrompt :: string

definition MAX_OVERFLOW_RETRIES :: nat where
  "MAX_OVERFLOW_RETRIES = 2"

definition OVERFLOW_KEEP_TOOL_USES :: nat where
  "OVERFLOW_KEEP_TOOL_USES = 3"

text \<open>
  The local state of \<^verbatim>\<open>run\<close>: the run context, the prompt of the next model call and
  the overflow-retry counter; \<open>modelCalls\<close> counts the model calls made so far.
\<close>

record loop_state =
  ctx :: run_context
  currentPrompt :: string
  overflowRetries :: nat
  modelCalls :: nat

section \<open>The agent loop\<close>

subsection \<open>Strings\<close>

text \<open>
  \<^verbatim>\<open>String.prototype.trim\<close> and the decimal rendering of an integer in a template
  literal (as JavaScript prints integers of magnitude below \<^verbatim>\<open>1e21\<close>). A character of
  \<open>string\<close> is a code unit below 256; the white space and line terminators of JavaScript
  in that range are the five ASCII controls, the space and the no-break space. The other
  white space of JavaScript (such as \<^verbatim>\<open>U+FEFF\<close> or \<^verbatim>\<open>U+2028\<close>) lies outside the range and
  does not occur in a modelled string.
\<close>

definition isWhiteSpace :: "char \<Rightarrow> bool" where
  "isWhiteSpace c =
     (c \<in> set [CHR 0x09, CHR 0x0A, CHR 0x0B, CHR 0x0C, CHR 0x0D, CHR 0x20, CHR 0xA0])"

definition trim :: "string \<Rightarrow> string" where
  "trim s = rev (dropWhile isWhiteSpace (rev (dropWhile isWhiteSpace s)))"

fun digits :: "nat \<Rightarrow> string" where
  "digits n =
     (if n < 10 then [''0123456789'' ! n]
      else digits (n div 10) @ [''0123456789'' ! (n mod 10)])"

declare digits.simps [simp del]

definition numberToString :: "int \<Rightarrow> string" where
  "numberToString i = (if i < 0 then CHR ''-'' # digits (nat (- i)) else digits (nat i))"

subsection \<open>Helpers of the loop\<close>

definition callModel ::
    "env \<Rightarrow> agent \<Rightarrow> nat \<Rightarrow> string \<Rightarrow> string + (response \<times> token_usage option)" where
  "callModel e a k prompt =
     callLlm e k \<lparr>req_prompt = prompt, req_model = model a,
                  req_systemPrompt = systemPrompt a, req_tools = Some (tools a)\<rparr>"

text \<open>
  The \<^verbatim>\<open>done\<close> event of a run that has a context: the object literal that
  \<^verbatim>\<open>handleDirectResponse\<close> and the three other exits of the loop build. The clock has been
  read twice before (by \<^verbatim>\<open>run\<close> and by \<^verbatim>\<open>createRunContext\<close>).
\<close>

definition doneEvent :: "env \<Rightarrow> string \<Rightarrow> run_context \<Rightarrow> done_event" where
  "doneEvent e text c =
     (let elapsed = now e 2 - startTime c
      in \<lparr>answer = text,
          toolCalls = getToolCallRecords (scratchpad c),
          iterations = iteration c,
          totalTime = elapsed,
          tokenUsage = Some (getUsage (tokenCounter c)),
          tokensPerSecond = Some (getTokensPerSecond (tokenCounter c) elapsed)\<rparr>)"

definition handleDirectResponse :: "env \<Rightarrow> string \<Rightarrow> run_context \<Rightarrow> action list" where
  "handleDirectResponse e responseText c = [Yield (Done (doneEvent e responseText c))]"

definition iterationPrompt :: "env \<Rightarrow> run_context \<Rightarrow> string" where
  "iterationPrompt e c =
     buildIterationPrompt e (query c)
       (getToolResults (renderFull e) (scratchpad c))
       (formatToolUsageForPrompt (renderCompact e) (scratchpad c))"

definition manageContextThreshold ::
    "env \<Rightarrow> agent \<Rightarrow> run_context \<Rightarrow> action list \<times> run_context" where
  "manageContextThreshold e a c =
     (let fullToolResults = getToolResults (renderFull e) (scratchpad c);
          estimatedContextTokens = estimateTokens e (systemPrompt a @ query c @ fullToolResults)
      in if CONTEXT_THRESHOLD e < estimatedContextTokens then
           (let (clearedCount, sp) = clearOldestToolResults (KEEP_TOOL_USES e) (scratchpad c)
            in (if 0 < clearedCount then [Yield (ContextCleared clearedCount (KEEP_TOOL_USES e))]
                else [],
                c\<lparr>scratchpad := sp\<rparr>))
         else ([], c))"

definition buildInitialPrompt :: "env \<Rightarrow> string \<Rightarrow> in_memory_history option \<Rightarrow> string" where
  "buildInitialPrompt e q inMemoryChatHistory =
     (case inMemoryChatHistory of
        None \<Rightarrow> q
      | Some h \<Rightarrow>
          if \<not> hasMessages h then q
          else if length (getRecentTurns h) = 0 then q
          else buildHistoryContext e (getRecentTurns h) q)"

text \<open>
  The \<^verbatim>\<open>for await\<close> loop over the executor's events: each event is passed on, and the
  first \<^verbatim>\<open>tool_denied\<close> ends the batch (the executor is not resumed after it). The
  result tells whether the batch was denied.
\<close>

fun consumeToolEvents :: "exec_step list \<Rightarrow> run_context \<Rightarrow> action list \<times> run_context \<times> bool" where
  "consumeToolEvents [] c = ([], c, False)"
| "consumeToolEvents (Record name arguments out # steps) c =
     consumeToolEvents steps (c\<lparr>scratchpad := addToolResult name arguments out (scratchpad c)\<rparr>)"
| "consumeToolEvents (Emit (ToolDenied d) # steps) c = ([Yield (ToolEvent (ToolDenied d))], c, True)"
| "consumeToolEvents (Emit (ToolProgress p) # steps) c =
     (case consumeToolEvents steps c of
        (acts, c', denied) \<Rightarrow> (Yield (ToolEvent (ToolProgress p)) # acts, c', denied))"

subsection \<open>The inner loop: a model call with overflow retries\<close>

text \<open>
  The \<^verbatim>\<open>while (true)\<close> loop around \<^verbatim>\<open>callModel\<close>. It ends with the response
  (\<open>Some\<close>), or with the \<^verbatim>\<open>done\<close> event of a failed run (\<open>None\<close>: \<^verbatim>\<open>run\<close> returns).
\<close>

function callModelLoop ::
    "env \<Rightarrow> agent \<Rightarrow> loop_state \<Rightarrow>
       action list \<times> (loop_state \<times> response \<times> token_usage option) option" where
  "callModelLoop e a s =
     (case callModel e a (modelCalls s) (currentPrompt s) of
        Inr (response, usage) \<Rightarrow>
          ([CallModel (currentPrompt s)],
           Some (s\<lparr>overflowRetries := 0, modelCalls := Suc (modelCalls s)\<rparr>, response, usage))
      | Inl errorMessage \<Rightarrow>
          (let s1 = s\<lparr>modelCalls := Suc (modelCalls s)\<rparr>;
               failed = (\<lambda>c. Yield (Done (doneEvent e
                           (''Error: '' @ formatUserFacingError e errorMessage) c)))
           in if isContextOverflowError e errorMessage \<and> overflowRetries s < MAX_OVERFLOW_RETRIES
              then
                (let s2 = s1\<lparr>overflowRetries := Suc (overflowRetries s)\<rparr>;
                     pruned = clearOldestToolResults OVERFLOW_KEEP_TOOL_USES (scratchpad (ctx s));
                     c = (ctx s)\<lparr>scratchpad := snd pruned\<rparr>
                 in if 0 < fst pruned then
                      (case callModelLoop e a
                              (s2\<lparr>ctx := c, currentPrompt := iterationPrompt e c\<rparr>) of
                         (acts, r) \<Rightarrow>
                           (CallModel (currentPrompt s)
                              # Yield (ContextCleared (fst pruned) OVERFLOW_KEEP_TOOL_USES)
                              # acts, r))
                    else ([CallModel (currentPrompt s), failed c], None))
              else ([CallModel (currentPrompt s), failed (ctx s)], None)))"
  by pat_completeness auto
termination
  by (relation "measure (\<lambda>(e, a, s). MAX_OVERFLOW_RETRIES - overflowRetries s)") auto

declare callModelLoop.simps [simp del]


lemma callModelLoop_frame:
  "callModelLoop e a s = (acts, Some (s', response, usage)) \<Longrightarrow>
     iteration (ctx s') = iteration (ctx s) \<and> query (ctx s') = query (ctx s)
     \<and> startTime (ctx s') = startTime (ctx s) \<and> tokenCounter (ctx s') = tokenCounter (ctx s)
     \<and> overflowRetries s' = 0"
proof (induction e a s arbitrary: acts rule: callModelLoop.induct)
  case (1 e a s)
  show ?case
  proof (cases "callModel e a (modelCalls s) (currentPrompt s)")
    case (Inr ok)
    with "1.prems" show ?thesis
      by (cases ok) (auto simp: callModelLoop.simps [of e a s])
  next
    case (Inl errorMessage)
    let ?pruned = "clearOldestToolResults OVERFLOW_KEEP_TOOL_USES (scratchpad (ctx s))"
    let ?c = "(ctx s)\<lparr>scratchpad := snd ?pruned\<rparr>"
    let ?s' = "s\<lparr>modelCalls := Suc (modelCalls s), overflowRetries := Suc (overflowRetries s),
                 ctx := ?c, currentPrompt := iterationPrompt e ?c\<rparr>"
    from "1.prems" Inl have retry:
      "isContextOverflowError e errorMessage" "overflowRetries s < MAX_OVERFLOW_RETRIES"
      "0 < fst ?pruned"
      by (auto simp: callModelLoop.simps [of e a s] Let_def split: if_splits prod.splits)
    with "1.prems" Inl obtain acts' where
      "callModelLoop e a ?s' = (acts', Some (s', response, usage))"
      by (auto simp: callModelLoop.simps [of e a s] Let_def split: prod.splits)
    from "1.IH" [OF Inl refl refl _ refl refl refl _ this] retry show ?thesis
      by simp
  qed
qed

subsection \<open>One pass of the main loop\<close>

text \<open>
  The body of \<^verbatim>\<open>while (ctx.iteration < this.maxIterations)\<close>. The result is the
  actions of the pass and the state for the next pass, or \<open>None\<close> when \<^verbatim>\<open>run\<close> returns
  inside the pass.
\<close>

definition loopPass :: "env \<Rightarrow> agent \<Rightarrow> loop_state \<Rightarrow> action list \<times> loop_state option" where
  "loopPass e a s0 =
     (let s = s0\<lparr>ctx := (ctx s0)\<lparr>iteration := iteration (ctx s0) + 1\<rparr>\<rparr>
      in case callModelLoop e a s of
           (acts, None) \<Rightarrow> (acts, None)
         | (acts, Some (s1, response, usage)) \<Rightarrow>
             (let c1 = (ctx s1)\<lparr>tokenCounter := addUsage usage (tokenCounter (ctx s1))\<rparr>;
                  responseText = (case response of Text t \<Rightarrow> t
                                  | Message m \<Rightarrow> extractTextContent m);
                  withTools = (case response of Text t \<Rightarrow> False | Message m \<Rightarrow> hasToolCalls m);
                  trimmedText = trim responseText;
                  emitThinking = (trimmedText \<noteq> [] \<and> withTools);
                  c2 = (if emitThinking
                        then c1\<lparr>scratchpad := addThinking trimmedText (scratchpad c1)\<rparr> else c1);
                  thinking = (if emitThinking then [Yield (Thinking trimmedText)] else [])
              in case response of
                   Text t \<Rightarrow> (acts @ thinking @ handleDirectResponse e responseText c2, None)
                 | Message m \<Rightarrow>
                     if \<not> hasToolCalls m
                     then (acts @ thinking @ handleDirectResponse e responseText c2, None)
                     else
                       (case consumeToolEvents (executeAll e m c2) c2 of
                          (toolActs, c3, denied) \<Rightarrow>
                            if denied
                            then (acts @ thinking @ toolActs @ [Yield (Done (doneEvent e [] c3))],
                                  None)
                            else
                              (case manageContextThreshold e a c3 of
                                 (cleared, c4) \<Rightarrow>
                                   (acts @ thinking @ toolActs @ cleared,
                                    Some (s1\<lparr>ctx := c4,
                                             currentPrompt := iterationPrompt e c4\<rparr>))))))"

lemma consumeToolEvents_frame:
  "consumeToolEvents steps c = (acts, c', denied) \<Longrightarrow>
     iteration c' = iteration c \<and> query c' = query c \<and> startTime c' = startTime c
     \<and> tokenCounter c' = tokenCounter c"
proof (induction steps c arbitrary: acts rule: consumeToolEvents.induct)
  case (4 p steps c)
  then show ?case by (auto split: prod.splits)
qed auto

lemma manageContextThreshold_frame:
  "manageContextThreshold e a c = (acts, c') \<Longrightarrow>
     iteration c' = iteration c \<and> query c' = query c \<and> startTime c' = startTime c
     \<and> tokenCounter c' = tokenCounter c"
  by (auto simp: manageContextThreshold_def Let_def split: if_splits prod.splits)

lemma loopPass_iteration:
  assumes "loopPass e a s = (acts, Some s')"
  shows "iteration (ctx s') = iteration (ctx s) + 1"
proof -
  let ?s = "s\<lparr>ctx := (ctx s)\<lparr>iteration := iteration (ctx s) + 1\<rparr>\<rparr>"
  from assms obtain acts1 s1 response usage where
    inner: "callModelLoop e a ?s = (acts1, Some (s1, response, usage))"
    by (auto simp: loopPass_def Let_def split: prod.splits option.splits)
  from callModelLoop_frame [OF inner] have it1: "iteration (ctx s1) = iteration (ctx s) + 1"
    by simp
  from assms inner it1 show ?thesis
    by (auto simp: loopPass_def Let_def
          split: prod.splits option.splits response.splits if_splits
          dest!: consumeToolEvents_frame manageContextThreshold_frame)
qed

subsection \<open>The main loop and \<^verbatim>\<open>run\<close>\<close>

definition maxIterationsMessage :: "agent \<Rightarrow> string" where
  "maxIterationsMessage a =
     ''Reached maximum iterations ('' @ numberToString (maxIterations a)
       @ ''). I was unable to complete the research in the allotted steps.''"

function agentLoop :: "env \<Rightarrow> agent \<Rightarrow> loop_state \<Rightarrow> action list" where
  "agentLoop e a s =
     (if iteration (ctx s) < maxIterations a then
        (case loopPass e a s of
           (acts, None) \<Rightarrow> acts
         | (acts, Some s') \<Rightarrow> acts @ agentLoop e a s')
      else [Yield (Done (doneEvent e (maxIterationsMessage a) (ctx s)))])"
  by pat_completeness auto
termination
proof (relation "measure (\<lambda>(e, a, s). nat (maxIterations a - iteration (ctx s)))")
  fix e :: env and a :: agent and s s' :: loop_state and acts r
  assume "iteration (ctx s) < maxIterations a" "(acts, r) = loopPass e a s" "r = Some s'"
  then have "loopPass e a s = (acts, Some s')" by simp
  from loopPass_iteration [OF this] \<open>iteration (ctx s) < maxIterations a\<close>
  show "((e, a, s'), (e, a, s)) \<in> measure (\<lambda>(e, a, s). nat (maxIterations a - iteration (ctx s)))"
    by simp
qed simp

declare agentLoop.simps [simp del]

definition initialState :: "env \<Rightarrow> string \<Rightarrow> in_memory_history option \<Rightarrow> loop_state" where
  "initialState e q inMemoryHistory =
     \<lparr>ctx = createRunContext q (now e 1),
      currentPrompt = buildInitialPrompt e q inMemoryHistory,
      overflowRetries = 0,
      modelCalls = 0\<rparr>"

definition run :: "env \<Rightarrow> agent \<Rightarrow> string \<Rightarrow> in_memory_history option \<Rightarrow> action list" where
  "run e a q inMemoryHistory =
     (if length (tools a) = 0 then
        [Yield (Done \<lparr>answer = ''No tools available. Please check your API key configuration.'',
                      toolCalls = [], iterations = 0, totalTime = now e 1 - now e 0,
                      tokenUsage = None, tokensPerSecond = None\<rparr>)]
      else agentLoop e a (initialState e q inMemoryHistory))"

text \<open>The events a consumer of the generator sees, and the prompts of the model calls.\<close>

fun events :: "action list \<Rightarrow> agent_event list" where
  "events [] = []"
| "events (CallModel p # acts) = events acts"
| "events (Yield ev # acts) = ev # events acts"

fun modelCallPrompts :: "action list \<Rightarrow> string list" where
  "modelCallPrompts [] = []"
| "modelCallPrompts (CallModel p # acts) = p # modelCallPrompts acts"
| "modelCallPrompts (Yield ev # acts) = modelCallPrompts acts"


subsection \<open>Vocabulary for stating properties of a run\<close>

fun isDone :: "action \<Rightarrow> bool" where
  "isDone (Yield (Done d)) = True"
| "isDone x = False"

fun isDenied :: "action \<Rightarrow> bool" where
  "isDenied (Yield (ToolEvent (ToolDenied x))) = True"
| "isDenied x = False"

fun isContextCleared :: "action \<Rightarrow> bool" where
  "isContextCleared (Yield (ContextCleared n k)) = True"
| "isContextCleared x = False"

fun isDoneEvent :: "agent_event \<Rightarrow> bool" where
  "isDoneEvent (Done d) = True"
| "isDoneEvent ev = False"

text \<open>A stretch of a run with no terminal event and no denial in it.\<close>

definition quiet :: "action list \<Rightarrow> bool" where
  "quiet acts = (filter isDone acts = [] \<and> filter isDenied acts = [])"

text \<open>
  A complete run: one \<^verbatim>\<open>done\<close> event, in last place; a denial, if there is one, stands
  immediately before it, and then the answer is empty.
\<close>

definition ended :: "action list \<Rightarrow> bool" where
  "ended acts =
     (\<exists>pre d. acts = pre @ [Yield (Done d)] \<and> filter isDone pre = []
        \<and> (filter isDenied pre = []
           \<or> (\<exists>pre' x. pre = pre' @ [Yield (ToolEvent (ToolDenied x))]
                 \<and> filter isDenied pre' = [] \<and> answer d = [])))"

text \<open>
  Names for what a pass computes from a response: its text, whether a thinking event is
  emitted, and the context after the usage sample is added and the thinking recorded.
\<close>

definition responseText :: "response \<Rightarrow> string" where
  "responseText response = (case response of Text t \<Rightarrow> t | Message m \<Rightarrow> extractTextContent m)"

definition carriesToolCalls :: "response \<Rightarrow> bool" where
  "carriesToolCalls response = (case response of Text t \<Rightarrow> False | Message m \<Rightarrow> hasToolCalls m)"

definition emitsThinking :: "response \<Rightarrow> bool" where
  "emitsThinking response = (trim (responseText response) \<noteq> [] \<and> carriesToolCalls response)"

definition thinkingActions :: "response \<Rightarrow> action list" where
  "thinkingActions response =
     (if emitsThinking response then [Yield (Thinking (trim (responseText response)))] else [])"

definition contextAfterResponse :: "run_context \<Rightarrow> response \<Rightarrow> token_usage option \<Rightarrow> run_context" where
  "contextAfterResponse c response usage =
     (let c1 = c\<lparr>tokenCounter := addUsage usage (tokenCounter c)\<rparr>
      in if emitsThinking response
         then c1\<lparr>scratchpad := addThinking (trim (responseText response)) (scratchpad c1)\<rparr>
         else c1)"

definition startPass :: "loop_state \<Rightarrow> loop_state" where
  "startPass s = s\<lparr>ctx := (ctx s)\<lparr>iteration := iteration (ctx s) + 1\<rparr>\<rparr>"

text \<open>
  The state in which the inner loop retries after an overflow: the scratchpad pruned to
  the overflow keep-count, the prompt rebuilt from it, both counters incremented.
\<close>

definition retryState :: "env \<Rightarrow> loop_state \<Rightarrow> loop_state" where
  "retryState e s =
     (let c = (ctx s)\<lparr>scratchpad :=
                 snd (clearOldestToolResults OVERFLOW_KEEP_TOOL_USES (scratchpad (ctx s)))\<rparr>
      in s\<lparr>ctx := c, currentPrompt := iterationPrompt e c,
           overflowRetries := Suc (overflowRetries s), modelCalls := Suc (modelCalls s)\<rparr>)"

text \<open>The \<^verbatim>\<open>done\<close> event of a failed model call.\<close>

definition errorDone :: "env \<Rightarrow> string \<Rightarrow> run_context \<Rightarrow> action" where
  "errorDone e errorMessage c =
     Yield (Done (doneEvent e (''Error: '' @ formatUserFacingError e errorMessage) c))"

text \<open>
  The states in which the condition of the main loop is evaluated during a run: the
  initial state, and the state after every pass that does not return.
\<close>

inductive_set loopHeads :: "env \<Rightarrow> agent \<Rightarrow> string \<Rightarrow> in_memory_history option \<Rightarrow> loop_state set"
  for e :: env and a :: agent and q :: string and h :: "in_memory_history option" where
  initial: "initialState e q h \<in> loopHeads e a q h"
| pass: "s \<in> loopHeads e a q h \<Longrightarrow> iteration (ctx s) < maxIterations a \<Longrightarrow>
         loopPass e a s = (acts, Some s') \<Longrightarrow> s' \<in> loopHeads e a q h"

section \<open>The loop with faults\<close>

text \<open>
  \<^verbatim>\<open>Agent.run\<close> once more, as the JavaScript runtime executes it when a collaborator
  fails. Only \<^verbatim>\<open>callModel\<close> stands inside the \<^verbatim>\<open>try\<close> block: an exception thrown anywhere
  else leaves the generator, and the run ends without another event. A call that never
  returns, or an awaited promise that never settles, leaves the run waiting for ever.
  The iteration budget is the field \<^verbatim>\<open>maxIterations\<close>, a JavaScript number that the
  constructor takes from the configuration as it is.
\<close>

subsection \<open>Numbers\<close>

text \<open>
  A JavaScript number as the loop condition reads it: a finite double (read as a real),
  one of the two infinities, or \<^verbatim>\<open>NaN\<close>. \<open>belowBudget i b\<close> is the comparison
  \<^verbatim>\<open>ctx.iteration < this.maxIterations\<close>; every comparison with \<^verbatim>\<open>NaN\<close> is false.
\<close>

datatype js_number = Number real | PositiveInfinity | NegativeInfinity | NaN

definition belowBudget :: "int \<Rightarrow> js_number \<Rightarrow> bool" where
  "belowBudget i b =
     (case b of Number r \<Rightarrow> real_of_int i < r | PositiveInfinity \<Rightarrow> True
      | NegativeInfinity \<Rightarrow> False | NaN \<Rightarrow> False)"

text \<open>
  \<^verbatim>\<open>ctx.iteration++\<close> on a double. The counter starts at 0 and the sum is exact up to
  \<open>2\<^sup>5\<^sup>3\<close>; there \<open>2\<^sup>5\<^sup>3 + 1\<close> is rounded back to \<open>2\<^sup>5\<^sup>3\<close> and the counter stays.
\<close>

definition increment :: "int \<Rightarrow> int" where
  "increment i = (if i < 2 ^ 53 then i + 1 else i)"

text \<open>
  The text of a number in a template literal: an integer of magnitude below \<^verbatim>\<open>1e21\<close>
  prints its decimal digits; how any other finite number prints is a parameter.
\<close>

definition numberToStringJS :: "(real \<Rightarrow> string) \<Rightarrow> js_number \<Rightarrow> string" where
  "numberToStringJS other x =
     (case x of
        NaN \<Rightarrow> ''NaN''
      | PositiveInfinity \<Rightarrow> ''Infinity''
      | NegativeInfinity \<Rightarrow> ''-Infinity''
      | Number r \<Rightarrow>
          if r = real_of_int \<lfloor>r\<rfloor> \<and> \<bar>r\<bar> < 10 ^ 21 then numberToString \<lfloor>r\<rfloor> else other r)"

subsection \<open>Faults\<close>

text \<open>
  A fault of a collaborator: it throws (with a message), or it never returns. The places
  of \<^verbatim>\<open>run\<close> where a fault leaves the generator are the stretches of code between two
  observable actions:
  \<^item> \<open>AtStart\<close>: \<^verbatim>\<open>createRunContext\<close> and \<^verbatim>\<open>buildInitialPrompt\<close>, before the loop;
  \<^item> \<open>AtClassify\<close>: the \<^verbatim>\<open>catch\<close> block up to and including \<^verbatim>\<open>isContextOverflowError\<close>;
  \<^item> \<open>AtPrune\<close>: \<^verbatim>\<open>clearOldestToolResults\<close> in the \<^verbatim>\<open>catch\<close> block;
  \<^item> \<open>AtRetryPrompt\<close>: \<^verbatim>\<open>buildIterationPrompt\<close> and the two scratchpad projections
    before a retry;
  \<^item> \<open>AtErrorDone\<close>: \<^verbatim>\<open>formatUserFacingError\<close> and the fields of the error \<^verbatim>\<open>done\<close> event;
  \<^item> \<open>AtResponse\<close>: \<^verbatim>\<open>tokenCounter.add\<close>, \<^verbatim>\<open>extractTextContent\<close>, \<^verbatim>\<open>hasToolCalls\<close> and
    \<^verbatim>\<open>addThinking\<close>, before the \<^verbatim>\<open>thinking\<close> event;
  \<^item> \<open>AtDispatch\<close>: the test for tool calls after the \<^verbatim>\<open>thinking\<close> event;
  \<^item> \<open>AtDirectDone\<close>: the fields of the \<^verbatim>\<open>done\<close> event of \<^verbatim>\<open>handleDirectResponse\<close>;
  \<^item> \<open>AtDeniedDone\<close>: the fields of the \<^verbatim>\<open>done\<close> event after a denial;
  \<^item> \<open>AtThreshold\<close>: \<^verbatim>\<open>manageContextThreshold\<close>;
  \<^item> \<open>AtNextPrompt\<close>: \<^verbatim>\<open>buildIterationPrompt\<close> at the end of a pass;
  \<^item> \<open>AtBudgetDone\<close>: the fields of the last \<^verbatim>\<open>done\<close> event.
\<close>

datatype fault = Throws string | NeverSettles

datatype site =
    AtStart | AtClassify | AtPrune | AtRetryPrompt | AtErrorDone | AtResponse | AtDispatch
  | AtDirectDone | AtDeniedDone | AtThreshold | AtNextPrompt | AtBudgetDone

text \<open>
  What a run meets besides the collaborators of \<open>env\<close>:
  \<^item> \<open>pruneWith k sp\<close> is what \<^verbatim>\<open>clearOldestToolResults(k)\<close> returns and leaves of
    scratchpad \<open>sp\<close>; the operation is a parameter here;
  \<^item> \<open>faultAt place s\<close> is the fault met at a place in state \<open>s\<close>, if any (the state of
    every visit of a place differs from that of the visits before, by the number of
    model calls);
  \<^item> \<open>modelNeverSettles k\<close> tells whether the promise of the \<open>k\<close>-th model call never
    settles;
  \<^item> \<open>executorFault m c = Some (k, f)\<close>: the executor fails with \<open>f\<close> after the first \<open>k\<close>
    steps of its batch, instead of going on (an executor that goes on for ever never
    completes: that is the fault \<open>NeverSettles\<close>);
  \<^item> \<open>configuredBudget\<close> is the configured \<^verbatim>\<open>maxIterations\<close> when it is not the integer
    of the agent record, \<open>None\<close> when it is;
  \<^item> \<open>renderOther\<close> prints a finite number that is not an integer below \<^verbatim>\<open>1e21\<close>.
\<close>

record runtime =
  pruneWith :: "nat \<Rightarrow> scratchpad \<Rightarrow> nat \<times> scratchpad"
  faultAt :: "site \<Rightarrow> loop_state \<Rightarrow> fault option"
  modelNeverSettles :: "nat \<Rightarrow> bool"
  executorFault :: "ai_message \<Rightarrow> run_context \<Rightarrow> (nat \<times> fault) option"
  configuredBudget :: "js_number option"
  renderOther :: "real \<Rightarrow> string"

definition iterationBudget :: "runtime \<Rightarrow> agent \<Rightarrow> js_number" where
  "iterationBudget w a =
     (case configuredBudget w of
        None \<Rightarrow> Number (real_of_int (maxIterations a))
      | Some b \<Rightarrow> b)"

subsection \<open>Outcomes\<close>

text \<open>
  A stretch of the run yields its actions and then goes on with a value, or ends the
  run: \<^verbatim>\<open>run\<close> returns, or an exception leaves the generator. The result \<open>None\<close> stands
  for a stretch that never completes. \<open>emitting acts r\<close> puts actions before those of
  \<open>r\<close>; \<open>unlessFault w place s k\<close> goes on with \<open>k\<close> unless there is a fault at the place.
\<close>

datatype ending = Returned | Thrown string

datatype 'a progress = Continue 'a | Stop ending

definition emitting ::
    "action list \<Rightarrow> (action list \<times> 'a) option \<Rightarrow> (action list \<times> 'a) option" where
  "emitting acts r = Option.bind r (\<lambda>(rest, x). Some (acts @ rest, x))"

lemma emitting_mono [partial_function_mono]:
  assumes "mono_option B"
  shows "mono_option (\<lambda>f. emitting acts (B f))"
  unfolding emitting_def by (rule bind_mono [OF assms]) (rule option.const_mono)

definition unlessFault ::
    "runtime \<Rightarrow> site \<Rightarrow> loop_state \<Rightarrow> (action list \<times> 'a progress) option \<Rightarrow>
       (action list \<times> 'a progress) option" where
  "unlessFault w place s k =
     (case faultAt w place s of
        None \<Rightarrow> k
      | Some (Throws message) \<Rightarrow> Some ([], Stop (Thrown message))
      | Some NeverSettles \<Rightarrow> None)"

subsection \<open>The inner loop\<close>

text \<open>
  One trip through \<^verbatim>\<open>while (true) { try { ... } catch (error) { ... } }\<close>: the response,
  a retry from a new state (\<^verbatim>\<open>continue\<close>), or the end of the run.
\<close>

datatype attempt = Responded loop_state response "token_usage option" | Again loop_state

definition failedJS ::
    "runtime \<Rightarrow> env \<Rightarrow> string \<Rightarrow> loop_state \<Rightarrow> (action list \<times> 'a progress) option" where
  "failedJS w e errorMessage s =
     unlessFault w AtErrorDone s
       (Some ([Yield (Done (doneEvent e (''Error: '' @ formatUserFacingError e errorMessage)
                              (ctx s)))],
              Stop Returned))"

definition attemptJS ::
    "runtime \<Rightarrow> env \<Rightarrow> agent \<Rightarrow> loop_state \<Rightarrow> (action list \<times> attempt progress) option" where
  "attemptJS w e a s =
     (if modelNeverSettles w (modelCalls s) then None
      else emitting [CallModel (currentPrompt s)]
        (case callModel e a (modelCalls s) (currentPrompt s) of
           Inr (response, usage) \<Rightarrow>
             Some ([], Continue (Responded (s\<lparr>overflowRetries := 0,
                                               modelCalls := Suc (modelCalls s)\<rparr>)
                                   response usage))
         | Inl errorMessage \<Rightarrow>
             (let s1 = s\<lparr>modelCalls := Suc (modelCalls s)\<rparr>
              in unlessFault w AtClassify s1
                   (if isContextOverflowError e errorMessage
                       \<and> overflowRetries s < MAX_OVERFLOW_RETRIES
                    then
                      unlessFault w AtPrune s1
                        (let pruned = pruneWith w OVERFLOW_KEEP_TOOL_USES (scratchpad (ctx s));
                             s2 = s1\<lparr>overflowRetries := Suc (overflowRetries s),
                                     ctx := (ctx s)\<lparr>scratchpad := snd pruned\<rparr>\<rparr>
                         in if 0 < fst pruned then
                              emitting [Yield (ContextCleared (fst pruned) OVERFLOW_KEEP_TOOL_USES)]
                                (unlessFault w AtRetryPrompt s2
                                   (Some ([], Continue (Again
                                      (s2\<lparr>currentPrompt := iterationPrompt e (ctx s2)\<rparr>)))))
                            else failedJS w e errorMessage s2)
                    else failedJS w e errorMessage s1))))"

lemma attemptJS_again:
  assumes "attemptJS w e a s = Some (acts, Continue (Again s'))"
  shows "overflowRetries s < MAX_OVERFLOW_RETRIES \<and> overflowRetries s' = Suc (overflowRetries s)"
  using assms
  by (auto simp: attemptJS_def emitting_def unlessFault_def failedJS_def Let_def
        split: if_splits sum.splits option.splits fault.splits prod.splits)

function callModelLoopJS ::
    "runtime \<Rightarrow> env \<Rightarrow> agent \<Rightarrow> loop_state \<Rightarrow>
       (action list \<times> (loop_state \<times> response \<times> token_usage option) progress) option" where
  "callModelLoopJS w e a s =
     (case attemptJS w e a s of
        None \<Rightarrow> None
      | Some (acts, Stop ending) \<Rightarrow> Some (acts, Stop ending)
      | Some (acts, Continue (Responded s' response usage)) \<Rightarrow>
          Some (acts, Continue (s', response, usage))
      | Some (acts, Continue (Again s')) \<Rightarrow> emitting acts (callModelLoopJS w e a s'))"
  by pat_completeness auto
termination
proof (relation "measure (\<lambda>(w, e, a, s). MAX_OVERFLOW_RETRIES - overflowRetries s)")
  fix w :: runtime and e :: env and a :: agent and s s' :: loop_state and x acts p t
  assume "attemptJS w e a s = Some x" "(acts, p) = x" "p = Continue t" "t = Again s'"
  then have "attemptJS w e a s = Some (acts, Continue (Again s'))" by simp
  from attemptJS_again [OF this]
  show "((w, e, a, s'), (w, e, a, s))
          \<in> measure (\<lambda>(w, e, a, s). MAX_OVERFLOW_RETRIES - overflowRetries s)"
    by auto
qed simp

declare callModelLoopJS.simps [simp del]

subsection \<open>One pass, the main loop and \<^verbatim>\<open>run\<close>\<close>

definition manageContextThresholdJS ::
    "runtime \<Rightarrow> env \<Rightarrow> agent \<Rightarrow> run_context \<Rightarrow> action list \<times> run_context" where
  "manageContextThresholdJS w e a c =
     (let fullToolResults = getToolResults (renderFull e) (scratchpad c);
          estimatedContextTokens = estimateTokens e (systemPrompt a @ query c @ fullToolResults)
      in if CONTEXT_THRESHOLD e < estimatedContextTokens then
           (let (clearedCount, sp) = pruneWith w (KEEP_TOOL_USES e) (scratchpad c)
            in (if 0 < clearedCount then [Yield (ContextCleared clearedCount (KEEP_TOOL_USES e))]
                else [],
                c\<lparr>scratchpad := sp\<rparr>))
         else ([], c))"

definition startPassJS :: "loop_state \<Rightarrow> loop_state" where
  "startPassJS s = s\<lparr>ctx := (ctx s)\<lparr>iteration := increment (iteration (ctx s))\<rparr>\<rparr>"

definition directJS ::
    "runtime \<Rightarrow> env \<Rightarrow> loop_state \<Rightarrow> string \<Rightarrow> run_context \<Rightarrow>
       (action list \<times> loop_state progress) option" where
  "directJS w e s text c =
     unlessFault w AtDirectDone s (Some (handleDirectResponse e text c, Stop Returned))"

text \<open>
  The \<^verbatim>\<open>for await\<close> loop over the executor. An executor that fails after \<open>k\<close> steps has
  done these steps; if a denial is among them, \<^verbatim>\<open>run\<close> has returned before the failure.
\<close>

definition executeJS ::
    "runtime \<Rightarrow> env \<Rightarrow> agent \<Rightarrow> loop_state \<Rightarrow> ai_message \<Rightarrow> run_context \<Rightarrow>
       (action list \<times> loop_state progress) option" where
  "executeJS w e a s m c =
     (let steps = (case executorFault w m c of
                     None \<Rightarrow> executeAll e m c
                   | Some (k, f) \<Rightarrow> take k (executeAll e m c))
      in case consumeToolEvents steps c of
           (toolActs, c3, denied) \<Rightarrow>
             emitting toolActs
               (if denied
                then unlessFault w AtDeniedDone (s\<lparr>ctx := c3\<rparr>)
                       (Some ([Yield (Done (doneEvent e [] c3))], Stop Returned))
                else
                  (case executorFault w m c of
                     Some (k, Throws message) \<Rightarrow> Some ([], Stop (Thrown message))
                   | Some (k, NeverSettles) \<Rightarrow> None
                   | None \<Rightarrow>
                       unlessFault w AtThreshold (s\<lparr>ctx := c3\<rparr>)
                         (case manageContextThresholdJS w e a c3 of
                            (cleared, c4) \<Rightarrow>
                              emitting cleared
                                (unlessFault w AtNextPrompt (s\<lparr>ctx := c4\<rparr>)
                                   (Some ([], Continue (s\<lparr>ctx := c4,
                                             currentPrompt := iterationPrompt e c4\<rparr>))))))))"

definition loopPassJS ::
    "runtime \<Rightarrow> env \<Rightarrow> agent \<Rightarrow> loop_state \<Rightarrow> (action list \<times> loop_state progress) option" where
  "loopPassJS w e a s0 =
     (case callModelLoopJS w e a (startPassJS s0) of
        None \<Rightarrow> None
      | Some (acts, Stop ending) \<Rightarrow> Some (acts, Stop ending)
      | Some (acts, Continue (s1, response, usage)) \<Rightarrow>
          emitting acts
            (unlessFault w AtResponse s1
               (let c2 = contextAfterResponse (ctx s1) response usage
                in emitting (thinkingActions response)
                     (unlessFault w AtDispatch (s1\<lparr>ctx := c2\<rparr>)
                        (case response of
                           Text t \<Rightarrow> directJS w e (s1\<lparr>ctx := c2\<rparr>) (responseText response) c2
                         | Message m \<Rightarrow>
                             if \<not> hasToolCalls m
                             then directJS w e (s1\<lparr>ctx := c2\<rparr>) (responseText response) c2
                             else executeJS w e a s1 m c2)))))"

definition budgetMessage :: "runtime \<Rightarrow> agent \<Rightarrow> string" where
  "budgetMessage w a =
     ''Reached maximum iterations ('' @ numberToStringJS (renderOther w) (iterationBudget w a)
       @ ''). I was unable to complete the research in the allotted steps.''"

text \<open>
  The main loop may run for ever: it is a partial function, and \<open>None\<close> is the result of
  a run that never completes.
\<close>

partial_function (option) agentLoopJS ::
    "runtime \<Rightarrow> env \<Rightarrow> agent \<Rightarrow> loop_state \<Rightarrow> (action list \<times> ending) option" where
  "agentLoopJS w e a s =
     (if belowBudget (iteration (ctx s)) (iterationBudget w a) then
        (case loopPassJS w e a s of
           None \<Rightarrow> None
         | Some (acts, Stop ending) \<Rightarrow> Some (acts, ending)
         | Some (acts, Continue s') \<Rightarrow> emitting acts (agentLoopJS w e a s'))
      else
        (case faultAt w AtBudgetDone s of
           None \<Rightarrow> Some ([Yield (Done (doneEvent e (budgetMessage w a) (ctx s)))], Returned)
         | Some (Throws message) \<Rightarrow> Some ([], Thrown message)
         | Some NeverSettles \<Rightarrow> None))"

definition runJS ::
    "runtime \<Rightarrow> env \<Rightarrow> agent \<Rightarrow> string \<Rightarrow> in_memory_history option \<Rightarrow>
       (action list \<times> ending) option" where
  "runJS w e a q inMemoryHistory =
     (if length (tools a) = 0 then
        Some ([Yield (Done \<lparr>answer = ''No tools available. Please check your API key configuration.'',
                            toolCalls = [], iterations = 0, totalTime = now e 1 - now e 0,
                            tokenUsage = None, tokensPerSecond = None\<rparr>)],
              Returned)
      else
        (case faultAt w AtStart (initialState e q inMemoryHistory) of
           None \<Rightarrow> agentLoopJS w e a (initialState e q inMemoryHistory)
         | Some (Throws message) \<Rightarrow> Some ([], Thrown message)
         | Some NeverSettles \<Rightarrow> None))"

subsection \<open>Vocabulary for runs with faults\<close>

text \<open>
  A runtime without faults; a budget that the counter reaches (\<^verbatim>\<open>NaN\<close> and
  \<^verbatim>\<open>-Infinity\<close> end the loop at once); a run that cannot end: no fault, a budget out of
  reach, and a model that asks for tools at every call, which are never denied.
\<close>

definition faultless :: "runtime \<Rightarrow> bool" where
  "faultless w =
     ((\<forall>place s. faultAt w place s = None) \<and> (\<forall>k. \<not> modelNeverSettles w k)
      \<and> (\<forall>m c. executorFault w m c = None))"

definition safeBudget :: "js_number \<Rightarrow> bool" where
  "safeBudget b =
     (case b of Number r \<Rightarrow> r \<le> 2 ^ 53 | PositiveInfinity \<Rightarrow> False
      | NegativeInfinity \<Rightarrow> True | NaN \<Rightarrow> True)"

definition endless :: "runtime \<Rightarrow> env \<Rightarrow> agent \<Rightarrow> loop_state \<Rightarrow> bool" where
  "endless w e a s =
     (faultless w \<and> \<not> safeBudget (iterationBudget w a) \<and> iteration (ctx s) \<le> 2 ^ 53
      \<and> (\<forall>k prompt. \<exists>m usage. callModel e a k prompt = Inr (Message m, usage)
            \<and> hasToolCalls m \<and> (\<forall>c x. Emit (ToolDenied x) \<notin> set (executeAll e m c))))"

text \<open>
  The shape of what a stretch of the run yields: no terminal event and no denial if the
  run goes on, a complete run if it returns, no terminal event if it throws. And the
  result of the first embedding read as an outcome.
\<close>

definition shaped :: "(action list \<times> 'a progress) option \<Rightarrow> bool" where
  "shaped r =
     (case r of
        None \<Rightarrow> True
      | Some (acts, Continue x) \<Rightarrow> quiet acts
      | Some (acts, Stop Returned) \<Rightarrow> ended acts
      | Some (acts, Stop (Thrown message)) \<Rightarrow> filter isDone acts = [])"

definition asProgress :: "'a option \<Rightarrow> 'a progress" where
  "asProgress r = (case r of None \<Rightarrow> Stop Returned | Some x \<Rightarrow> Continue x)"

section \<open>The \<^verbatim>\<open>financial_search\<close> tool\<close>

text \<open>
  JSON values as JavaScript has them after \<^verbatim>\<open>JSON.parse\<close>; an object is the list of its
  properties. A JavaScript value that may be \<^verbatim>\<open>undefined\<close> is a \<open>json option\<close>.
\<close>

datatype json =
    JNull
  | JBool bool
  | JNumber real
  | JString string
  | JArray "json list"
  | JObject "(string \<times> json) list"

text \<open>A tool call of the router model: the name of a finance tool and its arguments.\<close>

record sub_tool_call =
  sub_name :: string
  sub_args :: "(string \<times> json) list"

text \<open>What \<^verbatim>\<open>tool.invoke\<close> returns: a string, or a value that is stringified.\<close>

datatype raw_result = RawString string | RawValue json

text \<open>
  The collaborators of the tool: the router model (\<open>Inl\<close> when \<^verbatim>\<open>callLlm\<close> throws, else
  the \<^verbatim>\<open>tool_calls\<close> of the message, which may be missing), the registry of finance tools
  (a tool maps its arguments to what it returns, or to the message of what it throws;
  only \<^verbatim>\<open>get_stock_price\<close> of the twelve registered tools is among the sources), the JSON
  functions of the platform, \<^verbatim>\<open>formatToolResult\<close>, and the conversion of a value to a
  string in a template literal. The outcome of a sub-tool call is taken to depend on
  the tool and its arguments only.
\<close>

record fs_env =
  routerLlm :: "string \<Rightarrow> string \<Rightarrow> string + sub_tool_call list option"
  FINANCE_TOOL_MAP :: "string \<Rightarrow> ((string \<times> json) list \<Rightarrow> string + raw_result) option"
  jsonStringify :: "json \<Rightarrow> string"
  jsonParse :: "string \<Rightarrow> string + json"
  formatToolResult :: "(string \<times> json option) list \<Rightarrow> json list \<Rightarrow> string"
  toText :: "json \<Rightarrow> string"

record sub_result =
  res_tool :: string
  res_args :: "(string \<times> json) list"
  res_data :: "json option"
  res_sourceUrls :: json
  res_error :: "string option"

definition truthy :: "json \<Rightarrow> bool" where
  "truthy v =
     (case v of JNull \<Rightarrow> False | JBool b \<Rightarrow> b | JNumber n \<Rightarrow> n \<noteq> 0 | JString s \<Rightarrow> s \<noteq> []
      | JArray xs \<Rightarrow> True | JObject fs \<Rightarrow> True)"

definition notFoundMessage :: "string \<Rightarrow> string" where
  "notFoundMessage name = ''Tool '' @ [CHR 0x27] @ name @ [CHR 0x27] @ '' not found''"

text \<open>The message of the \<^verbatim>\<open>TypeError\<close> that reading a property of \<^verbatim>\<open>null\<close> throws.\<close>

definition nullPropertyMessage :: string where
  "nullPropertyMessage =
     ''Cannot read properties of null (reading '' @ [CHR 0x27] @ ''data'' @ [CHR 0x27] @ '')''"

text \<open>
  The \<^verbatim>\<open>try\<close> block of one sub-tool call: look the tool up, invoke it, parse its result and
  read \<^verbatim>\<open>data\<close> and \<^verbatim>\<open>sourceUrls\<close>. \<open>Inl\<close> is the message of the error thrown.
\<close>

definition trySubTool :: "fs_env \<Rightarrow> sub_tool_call \<Rightarrow> string + (json option \<times> json)" where
  "trySubTool e tc =
     (case FINANCE_TOOL_MAP e (sub_name tc) of
        None \<Rightarrow> Inl (notFoundMessage (sub_name tc))
      | Some financeTool \<Rightarrow>
          (case financeTool (sub_args tc) of
             Inl message \<Rightarrow> Inl message
           | Inr rawResult \<Rightarrow>
               (case jsonParse e (case rawResult of RawString s \<Rightarrow> s
                                  | RawValue v \<Rightarrow> jsonStringify e v) of
                  Inl message \<Rightarrow> Inl message
                | Inr parsed \<Rightarrow>
                    (case parsed of
                       JNull \<Rightarrow> Inl nullPropertyMessage
                     | JObject fs \<Rightarrow>
                         Inr (map_of fs ''data'',
                              (case map_of fs ''sourceUrls'' of
                                 None \<Rightarrow> JArray []
                               | Some urls \<Rightarrow> if truthy urls then urls else JArray []))
                     | _ \<Rightarrow> Inr (None, JArray [])))))"

text \<open>The callback of \<^verbatim>\<open>toolCalls.map\<close>: the \<^verbatim>\<open>try\<close> block and its \<^verbatim>\<open>catch\<close>.\<close>

definition executeSubTool :: "fs_env \<Rightarrow> sub_tool_call \<Rightarrow> sub_result" where
  "executeSubTool e tc =
     (case trySubTool e tc of
        Inr (d, urls) \<Rightarrow>
          \<lparr>res_tool = sub_name tc, res_args = sub_args tc, res_data = d,
           res_sourceUrls = urls, res_error = None\<rparr>
      | Inl message \<Rightarrow>
          \<lparr>res_tool = sub_name tc, res_args = sub_args tc, res_data = Some JNull,
           res_sourceUrls = JArray [], res_error = Some message\<rparr>)"

definition successfulResults :: "sub_result list \<Rightarrow> sub_result list" where
  "successfulResults results = filter (\<lambda>r. res_error r = None) results"

definition failedResults :: "sub_result list \<Rightarrow> sub_result list" where
  "failedResults results = filter (\<lambda>r. res_error r \<noteq> None) results"

text \<open>\<^verbatim>\<open>results.flatMap((r) => r.sourceUrls)\<close>: an array is spliced in, any other value is kept.\<close>

definition allUrls :: "sub_result list \<Rightarrow> json list" where
  "allUrls results =
     concat (map (\<lambda>r. case res_sourceUrls r of JArray urls \<Rightarrow> urls | v \<Rightarrow> [v]) results)"

definition resultKey :: "fs_env \<Rightarrow> sub_result \<Rightarrow> string" where
  "resultKey e r =
     (case map_of (res_args r) ''ticker'' of
        None \<Rightarrow> res_tool r
      | Some ticker \<Rightarrow>
          if truthy ticker
          then res_tool r @ ''_'' @ (case ticker of JString s \<Rightarrow> s | v \<Rightarrow> toText e v)
          else res_tool r)"

definition errorEntry :: "sub_result \<Rightarrow> json" where
  "errorEntry r =
     JObject [(''tool'', JString (res_tool r)), (''args'', JObject (res_args r)),
              (''error'', (case res_error r of None \<Rightarrow> JNull | Some message \<Rightarrow> JString message))]"

text \<open>
  The \<^verbatim>\<open>combinedData\<close> object: a property is assigned in place when its key exists and
  appended otherwise (the order of string keys that are not array indices).
\<close>

definition successData :: "fs_env \<Rightarrow> sub_result list \<Rightarrow> (string \<times> json option) list" where
  "successData e results =
     foldl (\<lambda>combined r. AList.update (resultKey e r) (res_data r) combined) []
       (successfulResults results)"

definition combinedData :: "fs_env \<Rightarrow> sub_result list \<Rightarrow> (string \<times> json option) list" where
  "combinedData e results =
     (if 0 < length (failedResults results)
      then AList.update ''_errors'' (Some (JArray (map errorEntry (failedResults results))))
             (successData e results)
      else successData e results)"

text \<open>
  The \<^verbatim>\<open>func\<close> of the tool, for a model name and a query. \<open>Inl\<close> is the message of an
  error it throws. Progress notifications are not modelled.
\<close>

definition financialSearch :: "fs_env \<Rightarrow> string \<Rightarrow> string \<Rightarrow> string + string" where
  "financialSearch e modelName q =
     (case routerLlm e modelName q of
        Inl message \<Rightarrow> Inl message
      | Inr routed \<Rightarrow>
          (case routed of
             None \<Rightarrow>
               Inr (formatToolResult e [(''error'', Some (JString ''No tools selected for query''))] [])
           | Some tcs \<Rightarrow>
               if length tcs = 0
               then Inr (formatToolResult e
                           [(''error'', Some (JString ''No tools selected for query''))] [])
               else (let results = map (executeSubTool e) tcs
                     in Inr (formatToolResult e (combinedData e results) (allUrls results)))))"


section \<open>Example collaborators\<close>

text \<open>
  Concrete collaborators on which the theorems below are instantiated: a model that
  follows a script indexed by the number of the call, an executor given as a function of
  the message, a classification that takes one fixed message for a context overflow.
\<close>

definition scriptedEnv ::
    "(nat \<Rightarrow> string + (response \<times> token_usage option)) \<Rightarrow> (ai_message \<Rightarrow> exec_step list) \<Rightarrow> env" where
  "scriptedEnv script executor =
     \<lparr>callLlm = (\<lambda>k r. script k),
      isContextOverflowError = (\<lambda>m. m = ''context_length_exceeded''),
      formatUserFacingError = (\<lambda>m. m),
      buildIterationPrompt = (\<lambda>q results usage. q @ results @ usage),
      buildHistoryContext = (\<lambda>turns q. concat turns @ q),
      estimateTokens = length,
      CONTEXT_THRESHOLD = 20,
      KEEP_TOOL_USES = 1,
      executeAll = (\<lambda>m c. executor m),
      renderFull = (\<lambda>r. tool r),
      renderCompact = (\<lambda>name arguments. name),
      now = (\<lambda>k. 100 * int k)\<rparr>"

definition exampleAgent :: "int \<Rightarrow> string list \<Rightarrow> agent" where
  "exampleAgent n ts = \<lparr>model = ''gpt-5.2'', maxIterations = n, tools = ts, systemPrompt = ''sys''\<rparr>"

definition exampleRecord :: "string \<Rightarrow> tool_call_record" where
  "exampleRecord name = \<lparr>tool = name, args = ''{}'', result = Succeeded ''ok''\<rparr>"

definition exampleState :: "scratchpad \<Rightarrow> nat \<Rightarrow> loop_state" where
  "exampleState sp retries =
     \<lparr>ctx = \<lparr>query = ''q'', iteration = 1, startTime = 100, scratchpad = sp,
              tokenCounter = emptyUsage\<rparr>,
      currentPrompt = ''p'', overflowRetries = retries, modelCalls = 0\<rparr>"

definition fourRecords :: scratchpad where
  "fourRecords =
     [ToolUse (exampleRecord ''a'') True, ToolUse (exampleRecord ''b'') True,
      ToolUse (exampleRecord ''c'') True, ToolUse (exampleRecord ''d'') True]"

text \<open>A model whose first \<open>n\<close> calls throw the overflow error and whose later calls answer.\<close>

definition overflowThenAnswer :: "nat \<Rightarrow> nat \<Rightarrow> string + (response \<times> token_usage option)" where
  "overflowThenAnswer n k =
     (if k < n then Inl ''context_length_exceeded'' else Inr (Text ''answer'', None))"

text \<open>
  A model that first asks for one tool call (with some thinking text) and then answers,
  a model that always asks for a tool call, and two executors: one that runs the tool and
  records its result, one that is denied.
\<close>

definition searchCall :: ai_message where
  "searchCall = \<lparr>content = '' plan '',
                  tool_calls = [\<lparr>call_id = ''1'', call_name = ''search'', call_args = ''{}''\<rparr>]\<rparr>"

definition toolThenAnswer :: "nat \<Rightarrow> string + (response \<times> token_usage option)" where
  "toolThenAnswer k =
     (if k = 0
      then Inr (Message searchCall,
                Some \<lparr>promptTokens = 10, completionTokens = 20, totalTokens = 30\<rparr>)
      else Inr (Text ''final'', None))"

definition alwaysTools :: "nat \<Rightarrow> string + (response \<times> token_usage option)" where
  "alwaysTools k = Inr (Message searchCall, None)"

definition searchExecutor :: "ai_message \<Rightarrow> exec_step list" where
  "searchExecutor m =
     [Emit (ToolProgress ''tool_start''), Record ''search'' ''{}'' (Succeeded ''found''),
      Emit (ToolProgress ''tool_end'')]"

definition denyingExecutor :: "ai_message \<Rightarrow> exec_step list" where
  "denyingExecutor m = [Emit (ToolProgress ''tool_approval''), Emit (ToolDenied ''write_file'')]"

definition longExecutor :: "ai_message \<Rightarrow> exec_step list" where
  "longExecutor m =
     [Emit (ToolProgress ''tool_start''), Record ''financial_search'' ''{}'' (Succeeded ''data''),
      Emit (ToolProgress ''tool_end'')]"

definition longState :: loop_state where
  "longState = exampleState [ToolUse (exampleRecord ''financial_search'') True] 0"

definition longContext :: run_context where
  "longContext =
     \<lparr>query = ''q'', iteration = 2, startTime = 100,
      scratchpad = [ToolUse (exampleRecord ''financial_search'') True, ThinkingNote ''plan'',
                    ToolUse \<lparr>tool = ''financial_search'', args = ''{}'',
                             result = Succeeded ''data''\<rparr> True],
      tokenCounter = emptyUsage\<rparr>"

text \<open>
  A runtime without faults, with the pruning operation of section \<open>Scratchpad\<close>; the
  same runtime with an executor that throws after its first step.
\<close>

definition exampleRuntime :: "js_number option \<Rightarrow> runtime" where
  "exampleRuntime b =
     \<lparr>pruneWith = clearOldestToolResults,
      faultAt = (\<lambda>place s. None),
      modelNeverSettles = (\<lambda>k. False),
      executorFault = (\<lambda>m c. None),
      configuredBudget = b,
      renderOther = (\<lambda>r. ''1.5'')\<rparr>"

definition failingExecutor :: runtime where
  "failingExecutor = (exampleRuntime None)\<lparr>executorFault := (\<lambda>m c. Some (1, Throws ''ECONNRESET''))\<rparr>"

text \<open>
  A pruning operation that discards one payload per call as long as more than
  \<open>keepCount\<close> are retained. It is not the operation of section \<open>Scratchpad\<close>, which
  discards all surplus payloads in one call: it stands for a scratchpad that has content
  to discard twice in a row.
\<close>

definition gradualPruning :: "nat \<Rightarrow> scratchpad \<Rightarrow> nat \<times> scratchpad" where
  "gradualPruning keepCount sp =
     (if keepCount < length (retainedRecords sp) then (1, discardOldest 1 sp) else (0, sp))"

definition fiveRecords :: scratchpad where
  "fiveRecords = fourRecords @ [ToolUse (exampleRecord ''e'') True]"

definition gradualRuntime :: runtime where
  "gradualRuntime = (exampleRuntime None)\<lparr>pruneWith := gradualPruning\<rparr>"

text \<open>
  A registry with two finance tools, one that answers and one that throws, and a batch
  of the router model with a call of an unregistered tool in it.
\<close>

definition exampleRegistry :: "string \<Rightarrow> ((string \<times> json) list \<Rightarrow> string + raw_result) option" where
  "exampleRegistry name =
     (if name = ''get_stock_price''
      then Some (\<lambda>arguments. Inr (RawString (case map_of arguments ''ticker'' of
                                                 Some (JString t) \<Rightarrow> t | _ \<Rightarrow> [])))
      else if name = ''get_income_statements''
      then Some (\<lambda>arguments. Inl ''Request failed'')
      else None)"

definition exampleBatch :: "sub_tool_call list" where
  "exampleBatch =
     [\<lparr>sub_name = ''get_stock_price'', sub_args = [(''ticker'', JString ''AAPL'')]\<rparr>,
      \<lparr>sub_name = ''get_magic'', sub_args = []\<rparr>,
      \<lparr>sub_name = ''get_income_statements'', sub_args = [(''ticker'', JString ''AAPL'')]\<rparr>,
      \<lparr>sub_name = ''get_stock_price'', sub_args = [(''ticker'', JString ''MSFT'')]\<rparr>]"

definition exampleFsEnv :: fs_env where
  "exampleFsEnv =
     \<lparr>routerLlm = (\<lambda>modelName q. Inr (Some exampleBatch)),
      FINANCE_TOOL_MAP = exampleRegistry,
      jsonStringify = (\<lambda>v. []),
      jsonParse = (\<lambda>s. if s = ''AAPL''
                        then Inr (JObject [(''data'', JNumber 190),
                                           (''sourceUrls'', JArray [JString ''yahoo/AAPL''])])
                        else if s = ''MSFT'' then Inr (JObject [(''data'', JNumber 410)])
                        else Inl ''Unexpected token''),
      formatToolResult = (\<lambda>d urls. concat (map fst d)),
      toText = (\<lambda>v. [])\<rparr>"

text \<open>The equations that evaluate a run of the example.\<close>

lemmas example_defs =
  callModel_def scriptedEnv_def overflowThenAnswer_def exampleAgent_def exampleState_def
  fourRecords_def exampleRecord_def clearOldestToolResults_def Let_def MAX_OVERFLOW_RETRIES_def
  OVERFLOW_KEEP_TOOL_USES_def iterationPrompt_def getToolResults_def formatToolUsageForPrompt_def

lemmas run_defs = run_def initialState_def createRunContext_def buildInitialPrompt_def
  agentLoop.simps loopPass_def callModelLoop.simps
  handleDirectResponse_def doneEvent_def manageContextThreshold_def
  extractTextContent_def hasToolCalls_def trim_def isWhiteSpace_def addThinking_def addToolResult_def
  addUsage_def getUsage_def getTokensPerSecond_def emptyUsage_def maxIterationsMessage_def
  numberToString_def digits.simps

lemmas runJS_defs = runJS_def agentLoopJS.simps loopPassJS_def callModelLoopJS.simps attemptJS_def
  executeJS_def directJS_def failedJS_def unlessFault_def emitting_def startPassJS_def
  increment_def belowBudget_def iterationBudget_def manageContextThresholdJS_def
  contextAfterResponse_def thinkingActions_def emitsThinking_def responseText_def
  carriesToolCalls_def budgetMessage_def numberToStringJS_def

section \<open>Properties of the scratchpad\<close>

lemma discardOldest_zero: "discardOldest 0 sp = sp"
  by (induction sp rule: retainedRecords.induct) auto

lemma retainedRecords_discardOldest:
  "retainedRecords (discardOldest n sp) = drop n (retainedRecords sp)"
  by (induction n sp rule: discardOldest.induct) (auto simp: drop_Cons split: nat.splits)

lemma thinkingNotes_discardOldest: "thinkingNotes (discardOldest n sp) = thinkingNotes sp"
  by (induction n sp rule: discardOldest.induct) auto

lemma getToolCallRecords_discardOldest:
  "getToolCallRecords (discardOldest n sp) = getToolCallRecords sp"
  by (induction n sp rule: discardOldest.induct) auto

lemma clearOldestToolResults_retained:
  "length (retainedRecords (snd (clearOldestToolResults k sp))) \<le> k"
  by (simp add: clearOldestToolResults_def Let_def retainedRecords_discardOldest)

lemma clearOldestToolResults_noop:
  "length (retainedRecords sp) \<le> k \<Longrightarrow> clearOldestToolResults k sp = (0, sp)"
  by (simp add: clearOldestToolResults_def discardOldest_zero)

lemma clearOldestToolResults_again:
  "fst (clearOldestToolResults k (snd (clearOldestToolResults k sp))) = 0"
  using clearOldestToolResults_noop [OF clearOldestToolResults_retained [of k sp]] by simp

text \<open>
  Claim C8. \<open>clearOldestToolResults k\<close> is idempotent: a second call with the same \<open>k\<close>
  clears nothing. It clears nothing (and changes nothing) whenever fewer than \<open>k\<close> records
  hold their full payload. It keeps the payloads of the most recent \<open>k\<close> retained records,
  reports how many it dropped, and never touches the thinking notes, the never-pruned
  tool-call records or the compact tool-usage summary.
\<close>

theorem clearOldestToolResults_idempotent:
  "fst (clearOldestToolResults k (snd (clearOldestToolResults k sp))) = 0
   \<and> (length (retainedRecords sp) < k \<longrightarrow> clearOldestToolResults k sp = (0, sp))
   \<and> fst (clearOldestToolResults k sp) = length (retainedRecords sp) - k
   \<and> retainedRecords (snd (clearOldestToolResults k sp))
       = drop (length (retainedRecords sp) - k) (retainedRecords sp)
   \<and> thinkingNotes (snd (clearOldestToolResults k sp)) = thinkingNotes sp
   \<and> getToolCallRecords (snd (clearOldestToolResults k sp)) = getToolCallRecords sp
   \<and> formatToolUsageForPrompt f (snd (clearOldestToolResults k sp))
       = formatToolUsageForPrompt f sp"
proof -
  have "length (retainedRecords sp) < k \<longrightarrow> clearOldestToolResults k sp = (0, sp)"
    by (simp add: clearOldestToolResults_noop)
  moreover have "getToolCallRecords (snd (clearOldestToolResults k sp)) = getToolCallRecords sp"
    by (simp add: clearOldestToolResults_def Let_def getToolCallRecords_discardOldest)
  moreover from this have
    "formatToolUsageForPrompt f (snd (clearOldestToolResults k sp)) = formatToolUsageForPrompt f sp"
    by (simp add: formatToolUsageForPrompt_def)
  moreover have "thinkingNotes (snd (clearOldestToolResults k sp)) = thinkingNotes sp"
    by (simp add: clearOldestToolResults_def Let_def thinkingNotes_discardOldest)
  moreover have "retainedRecords (snd (clearOldestToolResults k sp))
      = drop (length (retainedRecords sp) - k) (retainedRecords sp)"
    by (simp add: clearOldestToolResults_def Let_def retainedRecords_discardOldest)
  moreover have "fst (clearOldestToolResults k sp) = length (retainedRecords sp) - k"
    by (simp add: clearOldestToolResults_def Let_def)
  ultimately show ?thesis
    using clearOldestToolResults_again [of k sp] by blast
qed

text \<open>
  The theorem at two scratchpads: four records and a thinking note pruned to two (two
  payloads dropped, then none), and one record pruned to two (nothing to drop).
\<close>

theorem clearOldestToolResults_idempotent_witness:
  "clearOldestToolResults 2
      [ToolUse (exampleRecord ''a'') True, ThinkingNote ''n'', ToolUse (exampleRecord ''b'') True,
       ToolUse (exampleRecord ''c'') True, ToolUse (exampleRecord ''d'') True]
     = (2, [ToolUse (exampleRecord ''a'') False, ThinkingNote ''n'',
            ToolUse (exampleRecord ''b'') False, ToolUse (exampleRecord ''c'') True,
            ToolUse (exampleRecord ''d'') True])
   \<and> fst (clearOldestToolResults 2 (snd (clearOldestToolResults 2
      [ToolUse (exampleRecord ''a'') True, ThinkingNote ''n'', ToolUse (exampleRecord ''b'') True,
       ToolUse (exampleRecord ''c'') True, ToolUse (exampleRecord ''d'') True]))) = 0
   \<and> length (retainedRecords [ToolUse (exampleRecord ''a'') True]) < 2
   \<and> clearOldestToolResults 2 [ToolUse (exampleRecord ''a'') True]
       = (0, [ToolUse (exampleRecord ''a'') True])"
proof -
  have small: "length (retainedRecords [ToolUse (exampleRecord ''a'') True]) < 2"
    by simp
  have "clearOldestToolResults 2
      [ToolUse (exampleRecord ''a'') True, ThinkingNote ''n'', ToolUse (exampleRecord ''b'') True,
       ToolUse (exampleRecord ''c'') True, ToolUse (exampleRecord ''d'') True]
     = (2, [ToolUse (exampleRecord ''a'') False, ThinkingNote ''n'',
            ToolUse (exampleRecord ''b'') False, ToolUse (exampleRecord ''c'') True,
            ToolUse (exampleRecord ''d'') True])"
    by (simp add: clearOldestToolResults_def)
  with small
    clearOldestToolResults_idempotent [of 2
      "[ToolUse (exampleRecord ''a'') True, ThinkingNote ''n'', ToolUse (exampleRecord ''b'') True,
        ToolUse (exampleRecord ''c'') True, ToolUse (exampleRecord ''d'') True]"]
    clearOldestToolResults_idempotent [of 2 "[ToolUse (exampleRecord ''a'') True]"]
  show ?thesis by blast
qed

section \<open>Properties of the loop\<close>

text \<open>
  Claim C9. An agent whose tool list is empty emits exactly one event, the \<^verbatim>\<open>done\<close>
  event with the answer "No tools available. Please check your API key configuration.",
  an empty \<^verbatim>\<open>toolCalls\<close> list and \<^verbatim>\<open>iterations\<close> 0, and never calls the model.
\<close>

theorem run_without_tools:
  assumes "tools a = []"
  shows "run e a q h =
           [Yield (Done \<lparr>answer = ''No tools available. Please check your API key configuration.'',
                         toolCalls = [], iterations = 0, totalTime = now e 1 - now e 0,
                         tokenUsage = None, tokensPerSecond = None\<rparr>)]
         \<and> modelCallPrompts (run e a q h) = []
         \<and> length (events (run e a q h)) = 1"
  using assms by (simp add: run_def)

theorem run_without_tools_witness:
  "tools (exampleAgent 10 []) = []
   \<and> events (run (scriptedEnv (\<lambda>k. Inr (Text ''hello'', None)) (\<lambda>m. [])) (exampleAgent 10 []) ''q'' None)
       = [Done \<lparr>answer = ''No tools available. Please check your API key configuration.'',
                toolCalls = [], iterations = 0, totalTime = 100,
                tokenUsage = None, tokensPerSecond = None\<rparr>]
   \<and> modelCallPrompts
        (run (scriptedEnv (\<lambda>k. Inr (Text ''hello'', None)) (\<lambda>m. [])) (exampleAgent 10 []) ''q'' None)
       = []"
proof -
  have h: "tools (exampleAgent 10 []) = []"
    by (simp add: exampleAgent_def)
  from run_without_tools [OF h] h show ?thesis
    by (simp add: scriptedEnv_def)
qed


subsection \<open>The inner loop, one step at a time\<close>

lemma callModelLoop_success:
  assumes "callModel e a (modelCalls s) (currentPrompt s) = Inr (response, usage)"
  shows "callModelLoop e a s =
           ([CallModel (currentPrompt s)],
            Some (s\<lparr>overflowRetries := 0, modelCalls := Suc (modelCalls s)\<rparr>, response, usage))"
  using assms by (simp add: callModelLoop.simps [of e a s])

lemma callModelLoop_retry:
  assumes "callModel e a (modelCalls s) (currentPrompt s) = Inl errorMessage"
    and "isContextOverflowError e errorMessage"
    and "overflowRetries s < MAX_OVERFLOW_RETRIES"
    and "0 < fst (clearOldestToolResults OVERFLOW_KEEP_TOOL_USES (scratchpad (ctx s)))"
  shows "callModelLoop e a s =
           (CallModel (currentPrompt s)
              # Yield (ContextCleared
                         (fst (clearOldestToolResults OVERFLOW_KEEP_TOOL_USES (scratchpad (ctx s))))
                         OVERFLOW_KEEP_TOOL_USES)
              # fst (callModelLoop e a (retryState e s)),
            snd (callModelLoop e a (retryState e s)))"
proof -
  have same: "s\<lparr>modelCalls := Suc (modelCalls s), overflowRetries := Suc (overflowRetries s),
      ctx := (ctx s)\<lparr>scratchpad :=
                snd (clearOldestToolResults OVERFLOW_KEEP_TOOL_USES (scratchpad (ctx s)))\<rparr>,
      currentPrompt := iterationPrompt e ((ctx s)\<lparr>scratchpad :=
                snd (clearOldestToolResults OVERFLOW_KEEP_TOOL_USES (scratchpad (ctx s)))\<rparr>)\<rparr>
    = retryState e s"
    by (simp add: retryState_def Let_def)
  from assms show ?thesis
    by (simp add: callModelLoop.simps [of e a s] Let_def same split: prod.splits)
qed

lemma callModelLoop_failure:
  assumes "callModel e a (modelCalls s) (currentPrompt s) = Inl errorMessage"
    and "\<not> (isContextOverflowError e errorMessage \<and> overflowRetries s < MAX_OVERFLOW_RETRIES
            \<and> 0 < fst (clearOldestToolResults OVERFLOW_KEEP_TOOL_USES (scratchpad (ctx s))))"
  shows "callModelLoop e a s = ([CallModel (currentPrompt s), errorDone e errorMessage (ctx s)], None)"
proof (cases "isContextOverflowError e errorMessage \<and> overflowRetries s < MAX_OVERFLOW_RETRIES")
  case False
  with assms(1) show ?thesis
    by (auto simp: callModelLoop.simps [of e a s] Let_def errorDone_def)
next
  case True
  with assms(2) have "fst (clearOldestToolResults OVERFLOW_KEEP_TOOL_USES (scratchpad (ctx s))) = 0"
    by simp
  then have "snd (clearOldestToolResults OVERFLOW_KEEP_TOOL_USES (scratchpad (ctx s)))
      = scratchpad (ctx s)"
    by (simp add: clearOldestToolResults_def Let_def discardOldest_zero)
  with True assms show ?thesis
    by (simp add: callModelLoop.simps [of e a s] Let_def errorDone_def)
qed


lemma callModelLoop_first_action:
  "\<exists>rest. fst (callModelLoop e a s) = CallModel (currentPrompt s) # rest"
proof (cases "callModel e a (modelCalls s) (currentPrompt s)")
  case (Inr ok)
  then show ?thesis
    by (cases ok) (simp add: callModelLoop_success)
next
  case (Inl errorMessage)
  show ?thesis
  proof (cases "isContextOverflowError e errorMessage \<and> overflowRetries s < MAX_OVERFLOW_RETRIES
            \<and> 0 < fst (clearOldestToolResults OVERFLOW_KEEP_TOOL_USES (scratchpad (ctx s)))")
    case True
    with Inl show ?thesis by (simp add: callModelLoop_retry)
  next
    case False
    with Inl show ?thesis by (simp add: callModelLoop_failure)
  qed
qed

text \<open>
  Claim C2. Let a model call fail with message \<open>errorMessage\<close>. If the message is
  classified as a context overflow, the retry counter is below 2 and pruning the
  scratchpad to its 3 most recent tool-use records discards at least one, the loop emits
  \<^verbatim>\<open>context_cleared\<close> (with the number discarded and the keep-count 3) and goes on from
  the retry state: the scratchpad pruned, the prompt rebuilt from it, the retry counter
  incremented; its next action is the model call with the rebuilt prompt. Otherwise the
  loop emits the \<^verbatim>\<open>done\<close> event whose answer is "Error: " followed by the formatted
  message and whose \<^verbatim>\<open>toolCalls\<close> are the tool-call records so far, and \<^verbatim>\<open>run\<close> returns.
\<close>

theorem overflow_retry_or_failure:
  assumes "callModel e a (modelCalls s) (currentPrompt s) = Inl errorMessage"
  shows "(isContextOverflowError e errorMessage \<and> overflowRetries s < 2
            \<and> 0 < fst (clearOldestToolResults 3 (scratchpad (ctx s))) \<longrightarrow>
            callModelLoop e a s =
              (CallModel (currentPrompt s)
                 # Yield (ContextCleared (fst (clearOldestToolResults 3 (scratchpad (ctx s)))) 3)
                 # fst (callModelLoop e a (retryState e s)),
               snd (callModelLoop e a (retryState e s)))
            \<and> (\<exists>rest. fst (callModelLoop e a (retryState e s))
                         = CallModel (iterationPrompt e (ctx (retryState e s))) # rest)
            \<and> scratchpad (ctx (retryState e s)) = snd (clearOldestToolResults 3 (scratchpad (ctx s)))
            \<and> currentPrompt (retryState e s) = iterationPrompt e (ctx (retryState e s))
            \<and> overflowRetries (retryState e s) = overflowRetries s + 1
            \<and> modelCalls (retryState e s) = modelCalls s + 1)
       \<and> (\<not> (isContextOverflowError e errorMessage \<and> overflowRetries s < 2
               \<and> 0 < fst (clearOldestToolResults 3 (scratchpad (ctx s)))) \<longrightarrow>
            (\<exists>d. callModelLoop e a s = ([CallModel (currentPrompt s), Yield (Done d)], None)
                 \<and> answer d = ''Error: '' @ formatUserFacingError e errorMessage
                 \<and> toolCalls d = getToolCallRecords (scratchpad (ctx s))
                 \<and> iterations d = iteration (ctx s)))"
proof (intro conjI impI)
  assume retry: "isContextOverflowError e errorMessage \<and> overflowRetries s < 2
      \<and> 0 < fst (clearOldestToolResults 3 (scratchpad (ctx s)))"
  with assms show "callModelLoop e a s =
      (CallModel (currentPrompt s)
         # Yield (ContextCleared (fst (clearOldestToolResults 3 (scratchpad (ctx s)))) 3)
         # fst (callModelLoop e a (retryState e s)),
       snd (callModelLoop e a (retryState e s)))"
    using callModelLoop_retry [of e a s errorMessage]
    by (simp add: MAX_OVERFLOW_RETRIES_def OVERFLOW_KEEP_TOOL_USES_def)
  show "\<exists>rest. fst (callModelLoop e a (retryState e s))
      = CallModel (iterationPrompt e (ctx (retryState e s))) # rest"
    using callModelLoop_first_action [of e a "retryState e s"]
    by (simp add: retryState_def Let_def)
  show "scratchpad (ctx (retryState e s)) = snd (clearOldestToolResults 3 (scratchpad (ctx s)))"
    by (simp add: retryState_def Let_def OVERFLOW_KEEP_TOOL_USES_def)
  show "currentPrompt (retryState e s) = iterationPrompt e (ctx (retryState e s))"
    by (simp add: retryState_def Let_def)
  show "overflowRetries (retryState e s) = overflowRetries s + 1"
    by (simp add: retryState_def Let_def)
  show "modelCalls (retryState e s) = modelCalls s + 1"
    by (simp add: retryState_def Let_def)
next
  assume "\<not> (isContextOverflowError e errorMessage \<and> overflowRetries s < 2
      \<and> 0 < fst (clearOldestToolResults 3 (scratchpad (ctx s))))"
  with assms have "callModelLoop e a s
      = ([CallModel (currentPrompt s), errorDone e errorMessage (ctx s)], None)"
    using callModelLoop_failure [of e a s errorMessage]
    by (simp add: MAX_OVERFLOW_RETRIES_def OVERFLOW_KEEP_TOOL_USES_def)
  then show "\<exists>d. callModelLoop e a s = ([CallModel (currentPrompt s), Yield (Done d)], None)
      \<and> answer d = ''Error: '' @ formatUserFacingError e errorMessage
      \<and> toolCalls d = getToolCallRecords (scratchpad (ctx s))
      \<and> iterations d = iteration (ctx s)"
    by (simp add: errorDone_def doneEvent_def Let_def)
qed


text \<open>
  The theorem at two states of the example: with four records in the scratchpad and no
  retry so far the loop prunes one record and retries (the retried call answers); with
  the retry counter at 2 it ends the run with the error.
\<close>

theorem overflow_retry_or_failure_witness:
  "callModel (scriptedEnv (overflowThenAnswer 1) (\<lambda>m. [])) (exampleAgent 10 [''t''])
      (modelCalls (exampleState fourRecords 0)) (currentPrompt (exampleState fourRecords 0))
     = Inl ''context_length_exceeded''
   \<and> isContextOverflowError (scriptedEnv (overflowThenAnswer 1) (\<lambda>m. [])) ''context_length_exceeded''
   \<and> overflowRetries (exampleState fourRecords 0) < 2
   \<and> fst (clearOldestToolResults 3 (scratchpad (ctx (exampleState fourRecords 0)))) = 1
   \<and> fst (callModelLoop (scriptedEnv (overflowThenAnswer 1) (\<lambda>m. [])) (exampleAgent 10 [''t''])
            (exampleState fourRecords 0))
       = [CallModel ''p'', Yield (ContextCleared 1 3), CallModel ''qbcdabcd'']
   \<and> callModel (scriptedEnv (overflowThenAnswer 1) (\<lambda>m. [])) (exampleAgent 10 [''t''])
      (modelCalls (exampleState fourRecords 2)) (currentPrompt (exampleState fourRecords 2))
     = Inl ''context_length_exceeded''
   \<and> \<not> overflowRetries (exampleState fourRecords 2) < 2
   \<and> (\<exists>d. callModelLoop (scriptedEnv (overflowThenAnswer 1) (\<lambda>m. [])) (exampleAgent 10 [''t''])
            (exampleState fourRecords 2) = ([CallModel ''p'', Yield (Done d)], None)
         \<and> answer d = ''Error: context_length_exceeded''
         \<and> toolCalls d = map exampleRecord [''a'', ''b'', ''c'', ''d''])"
proof -
  let ?e = "scriptedEnv (overflowThenAnswer 1) (\<lambda>m. [])"
  let ?a = "exampleAgent 10 [''t'']"
  have call0: "callModel ?e ?a (modelCalls (exampleState fourRecords 0))
      (currentPrompt (exampleState fourRecords 0)) = Inl ''context_length_exceeded''"
    by (simp add: example_defs)
  have call2: "callModel ?e ?a (modelCalls (exampleState fourRecords 2))
      (currentPrompt (exampleState fourRecords 2)) = Inl ''context_length_exceeded''"
    by (simp add: example_defs)
  have overflow: "isContextOverflowError ?e ''context_length_exceeded''"
    by (simp add: example_defs)
  have pruned: "fst (clearOldestToolResults 3 (scratchpad (ctx (exampleState fourRecords 0)))) = 1"
    by (simp add: example_defs)
  have retries0: "overflowRetries (exampleState fourRecords 0) < 2"
    and retries2: "\<not> overflowRetries (exampleState fourRecords 2) < 2"
    by (simp_all add: example_defs)
  have second: "callModelLoop ?e ?a (retryState ?e (exampleState fourRecords 0))
      = ([CallModel ''qbcdabcd''],
         Some ((retryState ?e (exampleState fourRecords 0))\<lparr>overflowRetries := 0, modelCalls := 2\<rparr>,
               Text ''answer'', None))"
    by (subst callModelLoop_success [where response = "Text ''answer''" and usage = None])
       (simp_all add: example_defs retryState_def)
  from overflow_retry_or_failure [OF call0] overflow retries0 pruned second
  have first: "fst (callModelLoop ?e ?a (exampleState fourRecords 0))
      = [CallModel ''p'', Yield (ContextCleared 1 3), CallModel ''qbcdabcd'']"
    by (simp add: exampleState_def)
  from overflow_retry_or_failure [OF call2] retries2
  have "\<exists>d. callModelLoop ?e ?a (exampleState fourRecords 2) = ([CallModel ''p'', Yield (Done d)], None)
         \<and> answer d = ''Error: context_length_exceeded''
         \<and> toolCalls d = map exampleRecord [''a'', ''b'', ''c'', ''d'']"
    by (auto simp: exampleState_def scriptedEnv_def fourRecords_def)
  with call0 call2 overflow pruned retries0 retries2 first show ?thesis
    by blast
qed


subsection \<open>The shape of a run\<close>

lemma quiet_Nil: "quiet []"
  by (simp add: quiet_def)

lemma quiet_append: "quiet (xs @ ys) = (quiet xs \<and> quiet ys)"
  by (auto simp: quiet_def)

lemma quiet_Cons: "quiet (x # xs) = (\<not> isDone x \<and> \<not> isDenied x \<and> quiet xs)"
  by (auto simp: quiet_def)

lemma quiet_ended_append:
  assumes "quiet xs" and "ended ys"
  shows "ended (xs @ ys)"
proof -
  from assms(2) obtain pre d where ys: "ys = pre @ [Yield (Done d)]" "filter isDone pre = []"
    and denial: "filter isDenied pre = []
       \<or> (\<exists>pre' x. pre = pre' @ [Yield (ToolEvent (ToolDenied x))]
             \<and> filter isDenied pre' = [] \<and> answer d = [])"
    unfolding ended_def by blast
  from denial have "filter isDenied (xs @ pre) = []
       \<or> (\<exists>pre' x. xs @ pre = pre' @ [Yield (ToolEvent (ToolDenied x))]
             \<and> filter isDenied pre' = [] \<and> answer d = [])"
  proof
    assume "filter isDenied pre = []"
    with assms(1) show ?thesis by (simp add: quiet_def)
  next
    assume "\<exists>pre' x. pre = pre' @ [Yield (ToolEvent (ToolDenied x))]
             \<and> filter isDenied pre' = [] \<and> answer d = []"
    then obtain pre' x where "pre = pre' @ [Yield (ToolEvent (ToolDenied x))]"
      "filter isDenied pre' = []" "answer d = []" by blast
    with assms(1) have "xs @ pre = (xs @ pre') @ [Yield (ToolEvent (ToolDenied x))]
        \<and> filter isDenied (xs @ pre') = [] \<and> answer d = []"
      by (simp add: quiet_def)
    then show ?thesis by blast
  qed
  moreover from ys assms(1) have "xs @ ys = (xs @ pre) @ [Yield (Done d)]"
    "filter isDone (xs @ pre) = []"
    by (simp_all add: quiet_def)
  ultimately show ?thesis
    unfolding ended_def by blast
qed

lemma callModelLoop_shape:
  "callModelLoop e a s = (acts, r) \<Longrightarrow>
     (case r of None \<Rightarrow> \<exists>pre d. acts = pre @ [Yield (Done d)] \<and> quiet pre
      | Some x \<Rightarrow> quiet acts)"
proof (induction e a s arbitrary: acts r rule: callModelLoop.induct)
  case (1 e a s)
  show ?case
  proof (cases "callModel e a (modelCalls s) (currentPrompt s)")
    case (Inr ok)
    with "1.prems" show ?thesis
      by (cases ok) (auto simp: callModelLoop_success quiet_def)
  next
    case (Inl errorMessage)
    show ?thesis
    proof (cases "isContextOverflowError e errorMessage \<and> overflowRetries s < MAX_OVERFLOW_RETRIES
            \<and> 0 < fst (clearOldestToolResults OVERFLOW_KEEP_TOOL_USES (scratchpad (ctx s)))")
      case False
      from callModelLoop_failure [OF Inl False] "1.prems"
      have "acts = [CallModel (currentPrompt s)] @ [errorDone e errorMessage (ctx s)]" "r = None"
        by simp_all
      then show ?thesis
        by (auto simp: errorDone_def quiet_def)
    next
      case True
      let ?s' = "retryState e s"
      have same: "s\<lparr>modelCalls := Suc (modelCalls s), overflowRetries := Suc (overflowRetries s),
          ctx := (ctx s)\<lparr>scratchpad :=
                    snd (clearOldestToolResults OVERFLOW_KEEP_TOOL_USES (scratchpad (ctx s)))\<rparr>,
          currentPrompt := iterationPrompt e ((ctx s)\<lparr>scratchpad :=
                    snd (clearOldestToolResults OVERFLOW_KEEP_TOOL_USES (scratchpad (ctx s)))\<rparr>)\<rparr>
        = ?s'"
        by (simp add: retryState_def Let_def)
      obtain acts' r' where inner: "callModelLoop e a ?s' = (acts', r')"
        by (cases "callModelLoop e a ?s'")
      from True have ih: "case r' of None \<Rightarrow> \<exists>pre d. acts' = pre @ [Yield (Done d)] \<and> quiet pre
          | Some x \<Rightarrow> quiet acts'"
        using "1.IH" [OF Inl refl refl _ refl refl refl _ inner [folded same]] by simp
      from callModelLoop_retry [OF Inl] True inner "1.prems"
      have acts: "acts = [CallModel (currentPrompt s),
          Yield (ContextCleared
                   (fst (clearOldestToolResults OVERFLOW_KEEP_TOOL_USES (scratchpad (ctx s))))
                   OVERFLOW_KEEP_TOOL_USES)] @ acts'" and r: "r = r'"
        by simp_all
      show ?thesis
      proof (cases r')
        case None
        with ih obtain pre d where "acts' = pre @ [Yield (Done d)]" "quiet pre" by auto
        with acts have "acts = ([CallModel (currentPrompt s),
            Yield (ContextCleared
                   (fst (clearOldestToolResults OVERFLOW_KEEP_TOOL_USES (scratchpad (ctx s))))
                   OVERFLOW_KEEP_TOOL_USES)] @ pre) @ [Yield (Done d)]"
          "quiet ([CallModel (currentPrompt s),
            Yield (ContextCleared
                   (fst (clearOldestToolResults OVERFLOW_KEEP_TOOL_USES (scratchpad (ctx s))))
                   OVERFLOW_KEEP_TOOL_USES)] @ pre)"
          by (simp_all add: quiet_def)
        with None r show ?thesis by auto
      next
        case (Some x)
        with ih acts r show ?thesis by (simp add: quiet_def)
      qed
    qed
  qed
qed


lemma ended_done: "ended [Yield (Done d)]"
  unfolding ended_def by (intro exI [of _ "[]"] exI [of _ d]) simp

lemma ended_denied_done:
  "answer d = [] \<Longrightarrow> ended [Yield (ToolEvent (ToolDenied x)), Yield (Done d)]"
  unfolding ended_def
  by (intro exI [of _ "[Yield (ToolEvent (ToolDenied x))]"] exI [of _ d]) simp

lemma consumeToolEvents_shape:
  "consumeToolEvents steps c = (acts, c', denied) \<Longrightarrow>
     (if denied then \<exists>pre x. acts = pre @ [Yield (ToolEvent (ToolDenied x))] \<and> quiet pre
      else quiet acts)"
proof (induction steps c arbitrary: acts c' denied rule: consumeToolEvents.induct)
  case (1 c)
  then show ?case by (auto simp: quiet_def)
next
  case (2 name arguments out steps c)
  then show ?case by simp
next
  case (3 d steps c)
  then have "acts = [] @ [Yield (ToolEvent (ToolDenied d))]" "denied" by simp_all
  then show ?case using quiet_Nil by auto
next
  case (4 p steps c)
  obtain acts0 c0 denied0 where rest: "consumeToolEvents steps c = (acts0, c0, denied0)"
    by (cases "consumeToolEvents steps c")
  with "4.prems" have acts: "acts = Yield (ToolEvent (ToolProgress p)) # acts0"
    and same: "denied = denied0"
    by simp_all
  from "4.IH" [OF rest] have ih:
    "if denied0 then \<exists>pre x. acts0 = pre @ [Yield (ToolEvent (ToolDenied x))] \<and> quiet pre
     else quiet acts0" .
  show ?case
  proof (cases denied0)
    case True
    with ih obtain pre x where "acts0 = pre @ [Yield (ToolEvent (ToolDenied x))]" "quiet pre"
      by auto
    with acts have "acts = (Yield (ToolEvent (ToolProgress p)) # pre) @ [Yield (ToolEvent (ToolDenied x))]"
      "quiet (Yield (ToolEvent (ToolProgress p)) # pre)"
      by (simp_all add: quiet_Cons)
    with True same show ?thesis by auto
  next
    case False
    with ih acts same show ?thesis by (simp add: quiet_Cons)
  qed
qed

lemma consumeToolEvents_denied:
  "snd (snd (consumeToolEvents steps c)) = (\<exists>x. Emit (ToolDenied x) \<in> set steps)"
  by (induction steps c rule: consumeToolEvents.induct) (auto split: prod.splits)

lemma manageContextThreshold_quiet: "quiet (fst (manageContextThreshold e a c))"
  by (simp add: manageContextThreshold_def Let_def quiet_def split: prod.splits)

lemma loopPass_returned:
  assumes "callModelLoop e a (startPass s) = (acts0, None)"
  shows "loopPass e a s = (acts0, None)"
  using assms by (simp add: loopPass_def startPass_def)

lemma loopPass_direct:
  assumes "callModelLoop e a (startPass s) = (acts0, Some (s1, response, usage))"
    and "\<not> carriesToolCalls response"
  shows "loopPass e a s =
           (acts0 @ handleDirectResponse e (responseText response)
                      ((ctx s1)\<lparr>tokenCounter := addUsage usage (tokenCounter (ctx s1))\<rparr>),
            None)"
  using assms
  by (auto simp: loopPass_def startPass_def Let_def responseText_def carriesToolCalls_def
        split: response.splits)

lemma loopPass_tools:
  assumes "callModelLoop e a (startPass s) = (acts0, Some (s1, Message m, usage))"
    and "hasToolCalls m"
    and "consumeToolEvents (executeAll e m (contextAfterResponse (ctx s1) (Message m) usage))
           (contextAfterResponse (ctx s1) (Message m) usage) = (toolActs, c3, denied)"
  shows "loopPass e a s =
           (if denied
            then (acts0 @ thinkingActions (Message m) @ toolActs @ [Yield (Done (doneEvent e [] c3))],
                  None)
            else (acts0 @ thinkingActions (Message m) @ toolActs @ fst (manageContextThreshold e a c3),
                  Some (s1\<lparr>ctx := snd (manageContextThreshold e a c3),
                           currentPrompt := iterationPrompt e (snd (manageContextThreshold e a c3))\<rparr>)))"
proof -
  let ?c2 = "contextAfterResponse (ctx s1) (Message m) usage"
  have "loopPass e a s =
      (case consumeToolEvents (executeAll e m ?c2) ?c2 of
         (toolActs, c3, denied) \<Rightarrow>
           if denied
           then (acts0 @ thinkingActions (Message m) @ toolActs @ [Yield (Done (doneEvent e [] c3))],
                 None)
           else (case manageContextThreshold e a c3 of
                   (cleared, c4) \<Rightarrow>
                     (acts0 @ thinkingActions (Message m) @ toolActs @ cleared,
                      Some (s1\<lparr>ctx := c4, currentPrompt := iterationPrompt e c4\<rparr>))))"
    using assms(1,2)
    by (auto simp: loopPass_def startPass_def Let_def responseText_def carriesToolCalls_def
          contextAfterResponse_def thinkingActions_def emitsThinking_def case_prod_beta)
  with assms(3) show ?thesis
    by (simp add: case_prod_beta)
qed


text \<open>A pass that returns ends the run properly; a pass that goes on is quiet.\<close>

lemma thinkingActions_quiet: "quiet (thinkingActions response)"
  by (simp add: thinkingActions_def quiet_def)

lemma loopPass_shape:
  assumes "loopPass e a s = (acts, r)"
  shows "case r of None \<Rightarrow> ended acts | Some s' \<Rightarrow> quiet acts"
proof -
  obtain acts0 r0 where inner: "callModelLoop e a (startPass s) = (acts0, r0)"
    by (cases "callModelLoop e a (startPass s)")
  show ?thesis
  proof (cases r0)
    case None
    with callModelLoop_shape [OF inner] obtain pre d where
      "acts0 = pre @ [Yield (Done d)]" "quiet pre" by auto
    then have "ended acts0"
      using quiet_ended_append [OF _ ended_done, of pre d] by simp
    with None inner assms show ?thesis
      by (simp add: loopPass_returned)
  next
    case (Some x)
    obtain s1 response usage where x: "x = (s1, response, usage)"
      by (cases x)
    from callModelLoop_shape [OF inner] Some have q0: "quiet acts0" by simp
    note inner' = inner [unfolded Some x]
    show ?thesis
    proof (cases "carriesToolCalls response")
      case False
      from quiet_ended_append [OF q0 ended_done] loopPass_direct [OF inner' False] assms
      show ?thesis
        by (simp add: handleDirectResponse_def)
    next
      case True
      then obtain m where m: "response = Message m" "hasToolCalls m"
        by (auto simp: carriesToolCalls_def split: response.splits)
      let ?c2 = "contextAfterResponse (ctx s1) (Message m) usage"
      obtain toolActs c3 denied where batch:
        "consumeToolEvents (executeAll e m ?c2) ?c2 = (toolActs, c3, denied)"
        by (cases "consumeToolEvents (executeAll e m ?c2) ?c2")
      note pass = loopPass_tools [OF inner' [unfolded m(1)] m(2) batch]
      have qt: "quiet (acts0 @ thinkingActions (Message m))"
        using q0 thinkingActions_quiet by (simp add: quiet_append)
      show ?thesis
      proof (cases denied)
        case True
        with consumeToolEvents_shape [OF batch] obtain pre y where
          pre: "toolActs = pre @ [Yield (ToolEvent (ToolDenied y))]" "quiet pre" by auto
        from qt pre(2) have "quiet ((acts0 @ thinkingActions (Message m)) @ pre)"
          by (simp add: quiet_append)
        from quiet_ended_append [OF this ended_denied_done [of "doneEvent e [] c3" y]]
        have "ended (acts0 @ thinkingActions (Message m) @ toolActs
                @ [Yield (Done (doneEvent e [] c3))])"
          using pre(1) by (simp add: doneEvent_def Let_def)
        with pass True assms show ?thesis by simp
      next
        case False
        with consumeToolEvents_shape [OF batch] have "quiet toolActs" by simp
        with qt manageContextThreshold_quiet [of e a c3]
        have "quiet (acts0 @ thinkingActions (Message m) @ toolActs
                @ fst (manageContextThreshold e a c3))"
          by (simp add: quiet_append)
        with pass False assms show ?thesis by auto
      qed
    qed
  qed
qed

lemma agentLoop_ended: "ended (agentLoop e a s)"
proof (induction e a s rule: agentLoop.induct)
  case (1 e a s)
  show ?case
  proof (cases "iteration (ctx s) < maxIterations a")
    case False
    then show ?thesis
      by (simp add: agentLoop.simps [of e a s] ended_done)
  next
    case True
    obtain acts r where pass: "loopPass e a s = (acts, r)"
      by (cases "loopPass e a s")
    show ?thesis
    proof (cases r)
      case None
      with loopPass_shape [OF pass] True pass show ?thesis
        by (simp add: agentLoop.simps [of e a s])
    next
      case (Some s')
      with loopPass_shape [OF pass] have "quiet acts" by simp
      from quiet_ended_append [OF this "1.IH" [OF True pass [symmetric] Some]]
      show ?thesis
        using True pass Some by (simp add: agentLoop.simps [of e a s])
    qed
  qed
qed

lemma run_ended: "ended (run e a q h)"
  by (simp add: run_def agentLoop_ended ended_done)

lemma events_append: "events (xs @ ys) = events xs @ events ys"
  by (induction xs rule: events.induct) auto

lemma events_filter_done: "filter isDoneEvent (events xs) = events (filter isDone xs)"
proof (induction xs rule: events.induct)
  case (3 ev acts)
  then show ?case by (cases ev) auto
qed auto



subsection \<open>A run with a denial\<close>

lemma example_run_denied:
  "run (scriptedEnv toolThenAnswer denyingExecutor) (exampleAgent 10 [''search'']) ''q'' None =
     [CallModel ''q'', Yield (Thinking ''plan''),
      Yield (ToolEvent (ToolProgress ''tool_approval'')),
      Yield (ToolEvent (ToolDenied ''write_file'')),
      Yield (Done \<lparr>answer = [], toolCalls = [], iterations = 1, totalTime = 100,
                    tokenUsage = Some \<lparr>promptTokens = 10, completionTokens = 20, totalTokens = 30\<rparr>,
                    tokensPerSecond = Some 300\<rparr>)]"
  by (simp add: run_defs example_defs toolThenAnswer_def searchCall_def denyingExecutor_def)

subsection \<open>Denial\<close>

lemma denial_position:
  assumes "filter isDenied p = []" and "pre @ D # rest = p @ [D', Y]"
    and "isDenied D" and "\<not> isDenied Y"
  shows "rest = [Y]"
  using assms
proof (induction p arbitrary: pre)
  case Nil
  then show ?case by (cases pre) (auto simp: append_eq_Cons_conv)
next
  case (Cons z zs)
  then show ?case by (cases pre) (auto split: if_splits)
qed

lemma run_after_denial:
  assumes "run e a q h = pre @ Yield (ToolEvent (ToolDenied x)) # rest"
  shows "\<exists>d. rest = [Yield (Done d)] \<and> answer d = []"
proof -
  from run_ended [of e a q h] obtain p d where
    p: "run e a q h = p @ [Yield (Done d)]"
    and denial: "filter isDenied p = []
       \<or> (\<exists>p' y. p = p' @ [Yield (ToolEvent (ToolDenied y))]
             \<and> filter isDenied p' = [] \<and> answer d = [])"
    unfolding ended_def by blast
  from assms p have "filter isDenied (p @ [Yield (Done d)]) \<noteq> []"
    by (metis filter_append isDenied.simps(1) filter.simps(2) append_is_Nil_conv list.distinct(1))
  then have "filter isDenied p \<noteq> []" by simp
  with denial obtain p' y where p': "p = p' @ [Yield (ToolEvent (ToolDenied y))]"
    "filter isDenied p' = []" "answer d = []" by blast
  with assms p have "pre @ Yield (ToolEvent (ToolDenied x)) # rest
      = p' @ [Yield (ToolEvent (ToolDenied y)), Yield (Done d)]"
    by simp
  from denial_position [OF p'(2) this] have "rest = [Yield (Done d)]" by simp
  with p'(3) show ?thesis by blast
qed


text \<open>
  Claim C4. Whenever a run emits \<^verbatim>\<open>tool_denied\<close>, what follows is exactly one action,
  the \<^verbatim>\<open>done\<close> event with the empty answer: no model call and no other event comes after
  the denial. And whenever the executor signals denial for the tool calls of a response
  (as it does for a tool that requires approval when no approval callback was given;
  the executor itself is not among the sources), the loop ends there with
  \<^verbatim>\<open>tool_denied\<close> followed immediately by that \<^verbatim>\<open>done\<close> event.
\<close>

theorem denial_ends_run:
  "(run e a q h = pre @ Yield (ToolEvent (ToolDenied x)) # rest \<longrightarrow>
      (\<exists>d. rest = [Yield (Done d)] \<and> answer d = [] \<and> modelCallPrompts rest = []))
   \<and> (iteration (ctx s) < maxIterations a
        \<and> callModelLoop e a (startPass s) = (acts0, Some (s1, Message m, usage))
        \<and> hasToolCalls m
        \<and> Emit (ToolDenied y)
             \<in> set (executeAll e m (contextAfterResponse (ctx s1) (Message m) usage)) \<longrightarrow>
      (\<exists>before z d. agentLoop e a s
                       = before @ [Yield (ToolEvent (ToolDenied z)), Yield (Done d)]
                   \<and> answer d = [] \<and> filter isDenied before = [] \<and> filter isDone before = []))"
proof (intro conjI impI)
  assume "run e a q h = pre @ Yield (ToolEvent (ToolDenied x)) # rest"
  from run_after_denial [OF this]
  show "\<exists>d. rest = [Yield (Done d)] \<and> answer d = [] \<and> modelCallPrompts rest = []"
    by auto
next
  let ?c2 = "contextAfterResponse (ctx s1) (Message m) usage"
  assume asm: "iteration (ctx s) < maxIterations a
        \<and> callModelLoop e a (startPass s) = (acts0, Some (s1, Message m, usage))
        \<and> hasToolCalls m \<and> Emit (ToolDenied y) \<in> set (executeAll e m ?c2)"
  obtain toolActs c3 denied where batch:
    "consumeToolEvents (executeAll e m ?c2) ?c2 = (toolActs, c3, denied)"
    by (cases "consumeToolEvents (executeAll e m ?c2) ?c2")
  from asm consumeToolEvents_denied [of "executeAll e m ?c2" ?c2] batch have denied: denied
    by auto
  with consumeToolEvents_shape [OF batch] obtain before z where
    before: "toolActs = before @ [Yield (ToolEvent (ToolDenied z))]" "quiet before" by auto
  from asm callModelLoop_shape [of e a "startPass s" acts0] have "quiet acts0" by auto
  with before(2) thinkingActions_quiet [of "Message m"]
  have q: "quiet (acts0 @ thinkingActions (Message m) @ before)"
    by (simp add: quiet_append)
  from asm loopPass_tools [OF _ _ batch] denied
  have "loopPass e a s
      = (acts0 @ thinkingActions (Message m) @ toolActs @ [Yield (Done (doneEvent e [] c3))], None)"
    by simp
  with asm before(1) have "agentLoop e a s
      = (acts0 @ thinkingActions (Message m) @ before)
        @ [Yield (ToolEvent (ToolDenied z)), Yield (Done (doneEvent e [] c3))]"
    by (simp add: agentLoop.simps [of e a s])
  moreover have "answer (doneEvent e [] c3) = []"
    by (simp add: doneEvent_def Let_def)
  ultimately show "\<exists>before z d. agentLoop e a s
                       = before @ [Yield (ToolEvent (ToolDenied z)), Yield (Done d)]
                   \<and> answer d = [] \<and> filter isDenied before = [] \<and> filter isDone before = []"
    using q unfolding quiet_def by blast
qed

text \<open>The theorem at the example run whose executor is denied.\<close>

theorem denial_ends_run_witness:
  "run (scriptedEnv toolThenAnswer denyingExecutor) (exampleAgent 10 [''search'']) ''q'' None
     = [CallModel ''q'', Yield (Thinking ''plan''), Yield (ToolEvent (ToolProgress ''tool_approval''))]
       @ Yield (ToolEvent (ToolDenied ''write_file''))
       # [Yield (Done \<lparr>answer = [], toolCalls = [], iterations = 1, totalTime = 100,
                 tokenUsage = Some \<lparr>promptTokens = 10, completionTokens = 20, totalTokens = 30\<rparr>,
                 tokensPerSecond = Some 300\<rparr>)]
   \<and> (\<exists>d. [Yield (Done \<lparr>answer = [], toolCalls = [], iterations = 1, totalTime = 100,
                 tokenUsage = Some \<lparr>promptTokens = 10, completionTokens = 20, totalTokens = 30\<rparr>,
                 tokensPerSecond = Some 300\<rparr>)] = [Yield (Done d)] \<and> answer d = [])
   \<and> iteration (ctx (initialState (scriptedEnv toolThenAnswer denyingExecutor) ''q'' None))
       < maxIterations (exampleAgent 10 [''search''])
   \<and> (\<exists>s1 usage.
         callModelLoop (scriptedEnv toolThenAnswer denyingExecutor) (exampleAgent 10 [''search''])
            (startPass (initialState (scriptedEnv toolThenAnswer denyingExecutor) ''q'' None))
           = ([CallModel ''q''], Some (s1, Message searchCall, usage))
         \<and> hasToolCalls searchCall
         \<and> Emit (ToolDenied ''write_file'')
             \<in> set (executeAll (scriptedEnv toolThenAnswer denyingExecutor) searchCall
                      (contextAfterResponse (ctx s1) (Message searchCall) usage)))
   \<and> (\<exists>before z d.
         agentLoop (scriptedEnv toolThenAnswer denyingExecutor) (exampleAgent 10 [''search''])
            (initialState (scriptedEnv toolThenAnswer denyingExecutor) ''q'' None)
           = before @ [Yield (ToolEvent (ToolDenied z)), Yield (Done d)] \<and> answer d = [])"
proof -
  let ?e = "scriptedEnv toolThenAnswer denyingExecutor"
  let ?a = "exampleAgent 10 [''search'']"
  let ?s = "initialState ?e ''q'' None"
  let ?s1 = "(startPass ?s)\<lparr>overflowRetries := 0, modelCalls := 1\<rparr>"
  let ?usage = "Some \<lparr>promptTokens = 10, completionTokens = 20, totalTokens = 30\<rparr>"
  let ?rest = "[Yield (Done \<lparr>answer = [], toolCalls = [], iterations = 1, totalTime = 100,
                 tokenUsage = Some \<lparr>promptTokens = 10, completionTokens = 20, totalTokens = 30\<rparr>,
                 tokensPerSecond = Some 300\<rparr>)]"
  have run: "run ?e ?a ''q'' None
     = [CallModel ''q'', Yield (Thinking ''plan''), Yield (ToolEvent (ToolProgress ''tool_approval''))]
       @ Yield (ToolEvent (ToolDenied ''write_file'')) # ?rest"
    by (simp add: example_run_denied)
  have budget: "iteration (ctx ?s) < maxIterations ?a"
    by (simp add: initialState_def createRunContext_def exampleAgent_def)
  have inner: "callModelLoop ?e ?a (startPass ?s) = ([CallModel ''q''], Some (?s1, Message searchCall, ?usage))"
    by (subst callModelLoop_success [where response = "Message searchCall" and usage = ?usage])
       (simp_all add: example_defs toolThenAnswer_def startPass_def initialState_def
          buildInitialPrompt_def)
  have tools: "hasToolCalls searchCall"
    by (simp add: hasToolCalls_def searchCall_def)
  have denied: "Emit (ToolDenied ''write_file'')
      \<in> set (executeAll ?e searchCall (contextAfterResponse (ctx ?s1) (Message searchCall) ?usage))"
    by (simp add: scriptedEnv_def denyingExecutor_def)
  from denial_ends_run [of ?e ?a "''q''" None
      "[CallModel ''q'', Yield (Thinking ''plan''), Yield (ToolEvent (ToolProgress ''tool_approval''))]"
      "''write_file''" ?rest ?s "[CallModel ''q'']" ?s1 searchCall ?usage "''write_file''"]
    run budget inner tools denied
  have "(\<exists>d. ?rest = [Yield (Done d)] \<and> answer d = [])
      \<and> (\<exists>before z d. agentLoop ?e ?a ?s
             = before @ [Yield (ToolEvent (ToolDenied z)), Yield (Done d)] \<and> answer d = [])"
    by blast
  with run budget inner tools denied show ?thesis
    by blast
qed



subsection \<open>The final answer\<close>

lemma startPass_fields:
  "modelCalls (startPass s) = modelCalls s" "currentPrompt (startPass s) = currentPrompt s"
  "overflowRetries (startPass s) = overflowRetries s"
  "ctx (startPass s) = (ctx s)\<lparr>iteration := iteration (ctx s) + 1\<rparr>"
  by (simp_all add: startPass_def)

text \<open>The inner loop never touches the tool-call records: pruning keeps them.\<close>

lemma callModelLoop_records:
  "callModelLoop e a s = (acts, Some (s', response, usage)) \<Longrightarrow>
     getToolCallRecords (scratchpad (ctx s')) = getToolCallRecords (scratchpad (ctx s))"
proof (induction e a s arbitrary: acts rule: callModelLoop.induct)
  case (1 e a s)
  show ?case
  proof (cases "callModel e a (modelCalls s) (currentPrompt s)")
    case (Inr ok)
    with "1.prems" show ?thesis
      by (cases ok) (auto simp: callModelLoop_success)
  next
    case (Inl errorMessage)
    show ?thesis
    proof (cases "isContextOverflowError e errorMessage \<and> overflowRetries s < MAX_OVERFLOW_RETRIES
            \<and> 0 < fst (clearOldestToolResults OVERFLOW_KEEP_TOOL_USES (scratchpad (ctx s)))")
      case False
      from callModelLoop_failure [OF Inl False] "1.prems" show ?thesis by simp
    next
      case True
      let ?s' = "retryState e s"
      have same: "s\<lparr>modelCalls := Suc (modelCalls s), overflowRetries := Suc (overflowRetries s),
          ctx := (ctx s)\<lparr>scratchpad :=
                    snd (clearOldestToolResults OVERFLOW_KEEP_TOOL_USES (scratchpad (ctx s)))\<rparr>,
          currentPrompt := iterationPrompt e ((ctx s)\<lparr>scratchpad :=
                    snd (clearOldestToolResults OVERFLOW_KEEP_TOOL_USES (scratchpad (ctx s)))\<rparr>)\<rparr>
        = ?s'"
        by (simp add: retryState_def Let_def)
      from callModelLoop_retry [OF Inl] True "1.prems" obtain acts' where
        inner: "callModelLoop e a ?s' = (acts', Some (s', response, usage))"
        by (cases "callModelLoop e a ?s'") auto
      from True have "getToolCallRecords (scratchpad (ctx s'))
          = getToolCallRecords (scratchpad (ctx ?s'))"
        using "1.IH" [OF Inl refl refl _ refl refl refl _ inner [folded same]] by (simp add: same)
      then show ?thesis
        by (simp add: retryState_def Let_def clearOldestToolResults_def
              getToolCallRecords_discardOldest)
    qed
  qed
qed

text \<open>
  Claim C7. When the inner loop of a pass hands over a response that carries no tool
  calls, at the first attempt or after overflow retries, the loop emits the text of the
  response as the answer of a \<^verbatim>\<open>done\<close> event and the run ends: the run from the head of
  the pass consists of the actions of the inner loop (model calls and
  \<^verbatim>\<open>context_cleared\<close> events, no \<^verbatim>\<open>done\<close> event) and that event. The event carries the
  tool-call records (which pruning never touches), the iteration count, the elapsed
  time, and the token usage and throughput after the usage sample of the call is added.
  This holds for any text, the non-empty text of the claim included.
\<close>

theorem direct_response_is_final_answer:
  assumes "iteration (ctx s) < maxIterations a"
    and "callModelLoop e a (startPass s) = (acts0, Some (s1, response, usage))"
    and "\<not> carriesToolCalls response"
  shows "agentLoop e a s =
           acts0 @
           [Yield (Done \<lparr>answer = responseText response,
                         toolCalls = getToolCallRecords (scratchpad (ctx s)),
                         iterations = iteration (ctx s) + 1,
                         totalTime = now e 2 - startTime (ctx s),
                         tokenUsage = Some (getUsage (addUsage usage (tokenCounter (ctx s)))),
                         tokensPerSecond =
                           Some (getTokensPerSecond (addUsage usage (tokenCounter (ctx s)))
                                   (now e 2 - startTime (ctx s)))\<rparr>)]
         \<and> filter isDone acts0 = []"
proof -
  from callModelLoop_frame [OF assms(2)] callModelLoop_records [OF assms(2)]
  have frame: "iteration (ctx s1) = iteration (ctx s) + 1" "startTime (ctx s1) = startTime (ctx s)"
    "tokenCounter (ctx s1) = tokenCounter (ctx s)"
    "getToolCallRecords (scratchpad (ctx s1)) = getToolCallRecords (scratchpad (ctx s))"
    by (simp_all add: startPass_fields)
  from loopPass_direct [OF assms(2,3)] assms(1) frame
  have "agentLoop e a s =
           acts0 @
           [Yield (Done \<lparr>answer = responseText response,
                         toolCalls = getToolCallRecords (scratchpad (ctx s)),
                         iterations = iteration (ctx s) + 1,
                         totalTime = now e 2 - startTime (ctx s),
                         tokenUsage = Some (getUsage (addUsage usage (tokenCounter (ctx s)))),
                         tokensPerSecond =
                           Some (getTokensPerSecond (addUsage usage (tokenCounter (ctx s)))
                                   (now e 2 - startTime (ctx s)))\<rparr>)]"
    by (simp add: agentLoop.simps [of e a s] handleDirectResponse_def doneEvent_def Let_def)
  moreover from callModelLoop_shape [OF assms(2)] have "filter isDone acts0 = []"
    by (simp add: quiet_def)
  ultimately show ?thesis by blast
qed

text \<open>
  The theorem at two runs: one whose response arrives after an overflow retry, with four
  tool-call records in the scratchpad, and one whose first response is a plain text.
\<close>

theorem direct_response_is_final_answer_witness:
  "iteration (ctx (exampleState fourRecords 0)) < maxIterations (exampleAgent 10 [''search''])
   \<and> callModelLoop (scriptedEnv (overflowThenAnswer 1) searchExecutor) (exampleAgent 10 [''search''])
        (startPass (exampleState fourRecords 0))
       = ([CallModel ''p'', Yield (ContextCleared 1 3), CallModel ''qbcdabcd''],
          Some ((retryState (scriptedEnv (overflowThenAnswer 1) searchExecutor)
                   (startPass (exampleState fourRecords 0)))
                  \<lparr>overflowRetries := 0, modelCalls := 2\<rparr>,
                Text ''answer'', None))
   \<and> \<not> carriesToolCalls (Text ''answer'')
   \<and> agentLoop (scriptedEnv (overflowThenAnswer 1) searchExecutor) (exampleAgent 10 [''search''])
        (exampleState fourRecords 0)
       = [CallModel ''p'', Yield (ContextCleared 1 3), CallModel ''qbcdabcd'',
          Yield (Done \<lparr>answer = ''answer'',
                       toolCalls = map exampleRecord [''a'', ''b'', ''c'', ''d''],
                       iterations = 2, totalTime = 100,
                       tokenUsage = Some \<lparr>promptTokens = 0, completionTokens = 0, totalTokens = 0\<rparr>,
                       tokensPerSecond = Some 0\<rparr>)]
   \<and> iteration (ctx (initialState (scriptedEnv (overflowThenAnswer 0) searchExecutor) ''q'' None))
       < maxIterations (exampleAgent 10 [''search''])
   \<and> agentLoop (scriptedEnv (overflowThenAnswer 0) searchExecutor) (exampleAgent 10 [''search''])
        (initialState (scriptedEnv (overflowThenAnswer 0) searchExecutor) ''q'' None)
       = [CallModel ''q'',
          Yield (Done \<lparr>answer = ''answer'', toolCalls = [], iterations = 1, totalTime = 100,
                       tokenUsage = Some \<lparr>promptTokens = 0, completionTokens = 0, totalTokens = 0\<rparr>,
                       tokensPerSecond = Some 0\<rparr>)]"
proof -
  let ?e = "scriptedEnv (overflowThenAnswer 1) searchExecutor"
  let ?a = "exampleAgent 10 [''search'']"
  let ?s = "exampleState fourRecords 0"
  let ?r = "retryState ?e (startPass ?s)"
  let ?plain = "scriptedEnv (overflowThenAnswer 0) searchExecutor"
  let ?i = "initialState ?plain ''q'' None"
  have budget: "iteration (ctx ?s) < maxIterations ?a"
    by (simp add: exampleState_def exampleAgent_def)
  have second: "callModelLoop ?e ?a ?r
      = ([CallModel ''qbcdabcd''], Some (?r\<lparr>overflowRetries := 0, modelCalls := 2\<rparr>,
                                         Text ''answer'', None))"
    by (subst callModelLoop_success [where response = "Text ''answer''" and usage = None])
       (simp_all add: example_defs retryState_def startPass_def)
  have call0: "callModel ?e ?a (modelCalls (startPass ?s)) (currentPrompt (startPass ?s))
      = Inl ''context_length_exceeded''"
    by (simp add: example_defs startPass_def)
  have overflow: "isContextOverflowError ?e ''context_length_exceeded''"
    by (simp add: example_defs)
  have retries: "overflowRetries (startPass ?s) < MAX_OVERFLOW_RETRIES"
    by (simp add: example_defs startPass_def)
  have pruned: "fst (clearOldestToolResults OVERFLOW_KEEP_TOOL_USES (scratchpad (ctx (startPass ?s)))) = 1"
    by (simp add: example_defs startPass_def)
  from callModelLoop_retry [OF call0 overflow retries] pruned second
  have inner: "callModelLoop ?e ?a (startPass ?s)
      = ([CallModel ''p'', Yield (ContextCleared 1 3), CallModel ''qbcdabcd''],
         Some (?r\<lparr>overflowRetries := 0, modelCalls := 2\<rparr>, Text ''answer'', None))"
    by (simp add: startPass_def exampleState_def OVERFLOW_KEEP_TOOL_USES_def prod_eq_iff)
  have noCalls: "\<not> carriesToolCalls (Text ''answer'')"
    by (simp add: carriesToolCalls_def)
  from direct_response_is_final_answer [OF budget inner noCalls]
  have retried: "agentLoop ?e ?a ?s
       = [CallModel ''p'', Yield (ContextCleared 1 3), CallModel ''qbcdabcd'',
          Yield (Done \<lparr>answer = ''answer'',
                       toolCalls = map exampleRecord [''a'', ''b'', ''c'', ''d''],
                       iterations = 2, totalTime = 100,
                       tokenUsage = Some \<lparr>promptTokens = 0, completionTokens = 0, totalTokens = 0\<rparr>,
                       tokensPerSecond = Some 0\<rparr>)]"
    by (simp add: exampleState_def fourRecords_def scriptedEnv_def responseText_def addUsage_def
          getUsage_def getTokensPerSecond_def emptyUsage_def)
  have budget0: "iteration (ctx ?i) < maxIterations ?a"
    by (simp add: initialState_def createRunContext_def exampleAgent_def)
  have inner0: "callModelLoop ?plain ?a (startPass ?i)
      = ([CallModel ''q''], Some ((startPass ?i)\<lparr>overflowRetries := 0, modelCalls := 1\<rparr>,
                                  Text ''answer'', None))"
    by (subst callModelLoop_success [where response = "Text ''answer''" and usage = None])
       (simp_all add: example_defs startPass_def initialState_def buildInitialPrompt_def)
  from direct_response_is_final_answer [OF budget0 inner0 noCalls]
  have "agentLoop ?plain ?a ?i
       = [CallModel ''q'',
          Yield (Done \<lparr>answer = ''answer'', toolCalls = [], iterations = 1, totalTime = 100,
                       tokenUsage = Some \<lparr>promptTokens = 0, completionTokens = 0, totalTokens = 0\<rparr>,
                       tokensPerSecond = Some 0\<rparr>)]"
    by (simp add: initialState_def createRunContext_def scriptedEnv_def responseText_def
          addUsage_def getUsage_def getTokensPerSecond_def emptyUsage_def)
  with budget inner noCalls retried budget0 show ?thesis
    by blast
qed


subsection \<open>The proactive threshold check\<close>

text \<open>
  Claim C6. \<^verbatim>\<open>manageContextThreshold\<close> estimates the tokens of system prompt, query and
  full tool-results text. If the estimate exceeds the threshold it prunes the scratchpad
  to \<^verbatim>\<open>KEEP_TOOL_USES\<close> (a constant of its own, imported from the token utilities, not
  the overflow keep-count) and emits \<^verbatim>\<open>context_cleared\<close> only if at least one record was
  discarded; otherwise it changes and emits nothing. After a batch that was not denied,
  the loop runs this check on the context the batch left, then builds the next prompt
  from the (possibly pruned) scratchpad, and the next model call is made with that prompt.
\<close>

theorem threshold_pruning:
  "manageContextThreshold e a c =
     (if CONTEXT_THRESHOLD e
           < estimateTokens e (systemPrompt a @ query c @ getToolResults (renderFull e) (scratchpad c))
      then (if 0 < fst (clearOldestToolResults (KEEP_TOOL_USES e) (scratchpad c))
            then [Yield (ContextCleared (fst (clearOldestToolResults (KEEP_TOOL_USES e) (scratchpad c)))
                           (KEEP_TOOL_USES e))]
            else [],
            c\<lparr>scratchpad := snd (clearOldestToolResults (KEEP_TOOL_USES e) (scratchpad c))\<rparr>)
      else ([], c))
   \<and> (callModelLoop e a (startPass s) = (acts0, Some (s1, Message m, usage))
        \<and> hasToolCalls m
        \<and> consumeToolEvents (executeAll e m (contextAfterResponse (ctx s1) (Message m) usage))
             (contextAfterResponse (ctx s1) (Message m) usage) = (toolActs, c3, False) \<longrightarrow>
      (\<exists>s'. loopPass e a s
               = (acts0 @ thinkingActions (Message m) @ toolActs @ fst (manageContextThreshold e a c3),
                  Some s')
            \<and> ctx s' = snd (manageContextThreshold e a c3)
            \<and> currentPrompt s' = iterationPrompt e (snd (manageContextThreshold e a c3))
            \<and> (\<exists>rest. fst (callModelLoop e a (startPass s'))
                         = CallModel (iterationPrompt e (snd (manageContextThreshold e a c3))) # rest)))"
proof (intro conjI impI)
  show "manageContextThreshold e a c =
     (if CONTEXT_THRESHOLD e
           < estimateTokens e (systemPrompt a @ query c @ getToolResults (renderFull e) (scratchpad c))
      then (if 0 < fst (clearOldestToolResults (KEEP_TOOL_USES e) (scratchpad c))
            then [Yield (ContextCleared (fst (clearOldestToolResults (KEEP_TOOL_USES e) (scratchpad c)))
                           (KEEP_TOOL_USES e))]
            else [],
            c\<lparr>scratchpad := snd (clearOldestToolResults (KEEP_TOOL_USES e) (scratchpad c))\<rparr>)
      else ([], c))"
    by (simp add: manageContextThreshold_def Let_def case_prod_beta)
next
  let ?c2 = "contextAfterResponse (ctx s1) (Message m) usage"
  let ?s' = "s1\<lparr>ctx := snd (manageContextThreshold e a c3),
                 currentPrompt := iterationPrompt e (snd (manageContextThreshold e a c3))\<rparr>"
  assume asm: "callModelLoop e a (startPass s) = (acts0, Some (s1, Message m, usage))
        \<and> hasToolCalls m \<and> consumeToolEvents (executeAll e m ?c2) ?c2 = (toolActs, c3, False)"
  then have "loopPass e a s
      = (acts0 @ thinkingActions (Message m) @ toolActs @ fst (manageContextThreshold e a c3),
         Some ?s')"
    using loopPass_tools [of e a s acts0 s1 m usage toolActs c3 False] by simp
  moreover have "\<exists>rest. fst (callModelLoop e a (startPass ?s'))
      = CallModel (iterationPrompt e (snd (manageContextThreshold e a c3))) # rest"
    using callModelLoop_first_action [of e a "startPass ?s'"] by (simp add: startPass_fields)
  ultimately show "\<exists>s'. loopPass e a s
               = (acts0 @ thinkingActions (Message m) @ toolActs @ fst (manageContextThreshold e a c3),
                  Some s')
            \<and> ctx s' = snd (manageContextThreshold e a c3)
            \<and> currentPrompt s' = iterationPrompt e (snd (manageContextThreshold e a c3))
            \<and> (\<exists>rest. fst (callModelLoop e a (startPass s'))
                         = CallModel (iterationPrompt e (snd (manageContextThreshold e a c3))) # rest)"
    by (intro exI [of _ ?s']) simp
qed

text \<open>
  The theorem at the example: with one record of 16 characters the estimate is 20 and
  nothing is pruned; after a pass has added a second record the estimate is 36, one
  payload is discarded and \<^verbatim>\<open>context_cleared\<close> is emitted before the next prompt is built.
\<close>

theorem threshold_pruning_witness:
  "manageContextThreshold (scriptedEnv alwaysTools longExecutor) (exampleAgent 10 [''search''])
      (ctx longState) = ([], ctx longState)
   \<and> callModelLoop (scriptedEnv alwaysTools longExecutor) (exampleAgent 10 [''search''])
        (startPass longState)
       = ([CallModel ''p''],
          Some ((startPass longState)\<lparr>overflowRetries := 0, modelCalls := 1\<rparr>,
                Message searchCall, None))
   \<and> hasToolCalls searchCall
   \<and> consumeToolEvents
        (executeAll (scriptedEnv alwaysTools longExecutor) searchCall
           (contextAfterResponse
              (ctx ((startPass longState)\<lparr>overflowRetries := 0, modelCalls := 1\<rparr>))
              (Message searchCall) None))
        (contextAfterResponse
           (ctx ((startPass longState)\<lparr>overflowRetries := 0, modelCalls := 1\<rparr>))
           (Message searchCall) None)
       = ([Yield (ToolEvent (ToolProgress ''tool_start'')),
           Yield (ToolEvent (ToolProgress ''tool_end''))], longContext, False)
   \<and> manageContextThreshold (scriptedEnv alwaysTools longExecutor) (exampleAgent 10 [''search''])
        longContext
       = ([Yield (ContextCleared 1 1)],
          longContext\<lparr>scratchpad :=
            [ToolUse (exampleRecord ''financial_search'') False, ThinkingNote ''plan'',
             ToolUse \<lparr>tool = ''financial_search'', args = ''{}'',
                      result = Succeeded ''data''\<rparr> True]\<rparr>)
   \<and> (\<exists>s'. loopPass (scriptedEnv alwaysTools longExecutor) (exampleAgent 10 [''search''])
               longState
             = ([CallModel ''p'', Yield (Thinking ''plan''),
                 Yield (ToolEvent (ToolProgress ''tool_start'')),
                 Yield (ToolEvent (ToolProgress ''tool_end'')),
                 Yield (ContextCleared 1 1)], Some s')
           \<and> currentPrompt s' = ''qfinancial_searchfinancial_searchfinancial_search'')"
proof -
  let ?e = "scriptedEnv alwaysTools longExecutor"
  let ?a = "exampleAgent 10 [''search'']"
  let ?s1 = "(startPass longState)\<lparr>overflowRetries := 0, modelCalls := 1\<rparr>"
  let ?c2 = "contextAfterResponse (ctx ?s1) (Message searchCall) None"
  let ?toolActs = "[Yield (ToolEvent (ToolProgress ''tool_start'')),
                    Yield (ToolEvent (ToolProgress ''tool_end''))]"
  note ex = example_defs longState_def longContext_def longExecutor_def alwaysTools_def
    searchCall_def
  have below: "manageContextThreshold ?e ?a (ctx longState) = ([], ctx longState)"
    by (simp add: manageContextThreshold_def ex)
  have inner: "callModelLoop ?e ?a (startPass longState)
      = ([CallModel ''p''], Some (?s1, Message searchCall, None))"
    by (subst callModelLoop_success [where response = "Message searchCall" and usage = None])
       (simp_all add: ex startPass_def)
  have tools: "hasToolCalls searchCall"
    by (simp add: hasToolCalls_def searchCall_def)
  have batch: "consumeToolEvents (executeAll ?e searchCall ?c2) ?c2 = (?toolActs, longContext, False)"
    by (simp add: ex startPass_def contextAfterResponse_def emitsThinking_def responseText_def
          carriesToolCalls_def extractTextContent_def hasToolCalls_def trim_def isWhiteSpace_def
          addUsage_def addThinking_def addToolResult_def)
  have above: "manageContextThreshold ?e ?a longContext
      = ([Yield (ContextCleared 1 1)],
         longContext\<lparr>scratchpad :=
            [ToolUse (exampleRecord ''financial_search'') False, ThinkingNote ''plan'',
             ToolUse \<lparr>tool = ''financial_search'', args = ''{}'',
                      result = Succeeded ''data''\<rparr> True]\<rparr>)"
    by (simp add: manageContextThreshold_def ex)
  have think: "thinkingActions (Message searchCall) = [Yield (Thinking ''plan'')]"
    by (simp add: thinkingActions_def emitsThinking_def responseText_def carriesToolCalls_def
          extractTextContent_def hasToolCalls_def trim_def isWhiteSpace_def searchCall_def)
  from threshold_pruning [of ?e ?a longContext longState "[CallModel ''p'']" ?s1 searchCall None
      ?toolActs longContext] inner tools batch
  obtain s' where "loopPass ?e ?a longState
        = ([CallModel ''p''] @ thinkingActions (Message searchCall) @ ?toolActs
             @ fst (manageContextThreshold ?e ?a longContext), Some s')"
    "currentPrompt s' = iterationPrompt ?e (snd (manageContextThreshold ?e ?a longContext))"
    by blast
  then have "loopPass ?e ?a longState
        = ([CallModel ''p''] @ [Yield (Thinking ''plan'')] @ ?toolActs
             @ [Yield (ContextCleared 1 1)], Some s')"
    "currentPrompt s' = iterationPrompt ?e (longContext\<lparr>scratchpad :=
            [ToolUse (exampleRecord ''financial_search'') False, ThinkingNote ''plan'',
             ToolUse \<lparr>tool = ''financial_search'', args = ''{}'',
                      result = Succeeded ''data''\<rparr> True]\<rparr>)"
    by (simp_all only: above think fst_conv snd_conv)
  then have "loopPass ?e ?a longState
        = ([CallModel ''p'', Yield (Thinking ''plan''),
            Yield (ToolEvent (ToolProgress ''tool_start'')),
            Yield (ToolEvent (ToolProgress ''tool_end'')),
            Yield (ContextCleared 1 1)], Some s')
      \<and> currentPrompt s' = ''qfinancial_searchfinancial_searchfinancial_search''"
    by (simp add: iterationPrompt_def getToolResults_def formatToolUsageForPrompt_def
          scriptedEnv_def longContext_def exampleRecord_def)
  with below inner tools batch above show ?thesis
    by blast
qed



subsection \<open>The iteration budget\<close>












section \<open>Properties of the loop with faults\<close>

subsection \<open>Outcomes without faults\<close>

lemma emitting_Some: "emitting acts (Some (rest, x)) = Some (acts @ rest, x)"
  by (simp add: emitting_def)

lemma emitting_None: "emitting acts None = None"
  by (simp add: emitting_def)

lemma emitting_eq_Some:
  "emitting acts r = Some (b, x) \<longleftrightarrow> (\<exists>rest. r = Some (rest, x) \<and> b = acts @ rest)"
  by (cases r) (auto simp: emitting_def)

lemma unlessFault_faultless: "faultless w \<Longrightarrow> unlessFault w place s k = k"
  by (simp add: unlessFault_def faultless_def)

lemma ended_call_done: "ended [CallModel p, Yield (Done d)]"
  using quiet_ended_append [of "[CallModel p]" "[Yield (Done d)]"]
  by (simp add: quiet_def ended_done)

lemma attemptJS_faultless:
  assumes "faultless w"
  shows "\<exists>acts p. attemptJS w e a s = Some (acts, p)
           \<and> (case p of
                 Continue (Responded s' response usage) \<Rightarrow>
                   quiet acts \<and> iteration (ctx s') = iteration (ctx s)
               | Continue (Again s') \<Rightarrow> quiet acts \<and> iteration (ctx s') = iteration (ctx s)
               | Stop Returned \<Rightarrow> ended acts
               | Stop (Thrown message) \<Rightarrow> False)"
proof (cases "callModel e a (modelCalls s) (currentPrompt s)")
  case (Inr ok)
  with assms show ?thesis
    by (cases ok) (simp add: attemptJS_def faultless_def emitting_Some quiet_def)
next
  case (Inl errorMessage)
  with assms show ?thesis
    by (simp add: attemptJS_def unlessFault_faultless failedJS_def emitting_Some Let_def
          quiet_def ended_call_done faultless_def)
qed

lemma callModelLoopJS_faultless:
  assumes "faultless w"
  shows "\<exists>acts p. callModelLoopJS w e a s = Some (acts, p)
           \<and> (case p of
                 Continue (s', response, usage) \<Rightarrow>
                   quiet acts \<and> iteration (ctx s') = iteration (ctx s)
               | Stop Returned \<Rightarrow> ended acts
               | Stop (Thrown message) \<Rightarrow> False)"
  using assms
proof (induction w e a s rule: callModelLoopJS.induct)
  case (1 w e a s)
  from attemptJS_faultless [OF "1.prems", of e a s] obtain acts p where
    attempt: "attemptJS w e a s = Some (acts, p)"
    and shape: "case p of
                 Continue (Responded s' response usage) \<Rightarrow>
                   quiet acts \<and> iteration (ctx s') = iteration (ctx s)
               | Continue (Again s') \<Rightarrow> quiet acts \<and> iteration (ctx s') = iteration (ctx s)
               | Stop Returned \<Rightarrow> ended acts
               | Stop (Thrown message) \<Rightarrow> False"
    by blast
  show ?case
  proof (cases p)
    case (Stop ending)
    with attempt shape show ?thesis
      by (simp add: callModelLoopJS.simps [of w e a s])
  next
    case (Continue t)
    show ?thesis
    proof (cases t)
      case (Responded s' response usage)
      with Continue attempt shape show ?thesis
        by (simp add: callModelLoopJS.simps [of w e a s])
    next
      case (Again s')
      from "1.IH" [OF attempt refl Continue Again "1.prems"] obtain rest p' where
        inner: "callModelLoopJS w e a s' = Some (rest, p')"
        and shape': "case p' of
                 Continue (s'', response, usage) \<Rightarrow>
                   quiet rest \<and> iteration (ctx s'') = iteration (ctx s')
               | Stop Returned \<Rightarrow> ended rest
               | Stop (Thrown message) \<Rightarrow> False"
        by blast
      from Continue Again shape have q: "quiet acts" "iteration (ctx s') = iteration (ctx s)"
        by simp_all
      from attempt Continue Again inner
      have result: "callModelLoopJS w e a s = Some (acts @ rest, p')"
        by (simp add: callModelLoopJS.simps [of w e a s] emitting_Some)
      from shape' q show ?thesis
        unfolding result
        by (auto simp: quiet_append quiet_ended_append split: progress.splits ending.splits)
    qed
  qed
qed

lemma manageContextThresholdJS_quiet: "quiet (fst (manageContextThresholdJS w e a c))"
  by (simp add: manageContextThresholdJS_def Let_def quiet_def split: prod.splits)

lemma manageContextThresholdJS_frame:
  "manageContextThresholdJS w e a c = (acts, c') \<Longrightarrow>
     iteration c' = iteration c \<and> query c' = query c \<and> startTime c' = startTime c
     \<and> tokenCounter c' = tokenCounter c"
  by (auto simp: manageContextThresholdJS_def Let_def split: if_splits prod.splits)

lemma contextAfterResponse_iteration:
  "iteration (contextAfterResponse c response usage) = iteration c"
  by (simp add: contextAfterResponse_def Let_def)

lemma executeJS_faultless:
  assumes "faultless w"
  shows "\<exists>acts p. executeJS w e a s m c = Some (acts, p)
           \<and> (case p of
                 Continue s' \<Rightarrow> quiet acts \<and> iteration (ctx s') = iteration c
               | Stop Returned \<Rightarrow> ended acts
               | Stop (Thrown message) \<Rightarrow> False)"
proof -
  from assms have none: "executorFault w m c = None"
    by (simp add: faultless_def)
  obtain toolActs c3 denied where batch:
    "consumeToolEvents (executeAll e m c) c = (toolActs, c3, denied)"
    by (cases "consumeToolEvents (executeAll e m c) c")
  show ?thesis
  proof (cases denied)
    case True
    with consumeToolEvents_shape [OF batch] obtain pre y where
      pre: "toolActs = pre @ [Yield (ToolEvent (ToolDenied y))]" "quiet pre" by auto
    from quiet_ended_append [OF pre(2) ended_denied_done [of "doneEvent e [] c3" y]]
    have "ended (toolActs @ [Yield (Done (doneEvent e [] c3))])"
      using pre(1) by (simp add: doneEvent_def Let_def)
    with True batch none assms show ?thesis
      by (simp add: executeJS_def unlessFault_faultless emitting_Some)
  next
    case False
    obtain cleared c4 where threshold: "manageContextThresholdJS w e a c3 = (cleared, c4)"
      by (cases "manageContextThresholdJS w e a c3")
    from consumeToolEvents_shape [OF batch] False have "quiet toolActs" by simp
    moreover from manageContextThresholdJS_quiet [of w e a c3] threshold have "quiet cleared"
      by simp
    moreover from manageContextThresholdJS_frame [OF threshold] consumeToolEvents_frame [OF batch]
    have "iteration c4 = iteration c" by simp
    ultimately show ?thesis
      using False batch none threshold assms
      by (simp add: executeJS_def unlessFault_faultless emitting_Some quiet_append)
  qed
qed

lemma startPassJS_iteration: "iteration (ctx (startPassJS s)) = increment (iteration (ctx s))"
  by (simp add: startPassJS_def)

lemma loopPassJS_faultless:
  assumes "faultless w"
  shows "\<exists>acts p. loopPassJS w e a s = Some (acts, p)
           \<and> (case p of
                 Continue s' \<Rightarrow> quiet acts \<and> iteration (ctx s') = increment (iteration (ctx s))
               | Stop Returned \<Rightarrow> ended acts
               | Stop (Thrown message) \<Rightarrow> False)"
proof -
  from callModelLoopJS_faultless [OF assms, of e a "startPassJS s"] obtain acts0 p0 where
    inner: "callModelLoopJS w e a (startPassJS s) = Some (acts0, p0)"
    and shape: "case p0 of
                 Continue (s', response, usage) \<Rightarrow>
                   quiet acts0 \<and> iteration (ctx s') = iteration (ctx (startPassJS s))
               | Stop Returned \<Rightarrow> ended acts0
               | Stop (Thrown message) \<Rightarrow> False"
    by blast
  show ?thesis
  proof (cases p0)
    case (Stop ending)
    with inner shape show ?thesis
      by (simp add: loopPassJS_def)
  next
    case (Continue t)
    obtain s1 response usage where t: "t = (s1, response, usage)"
      by (cases t)
    from shape Continue t have q0: "quiet acts0"
      and it: "iteration (ctx s1) = increment (iteration (ctx s))"
      by (simp_all add: startPassJS_iteration)
    let ?c2 = "contextAfterResponse (ctx s1) response usage"
    have qt: "quiet (acts0 @ thinkingActions response)"
      using q0 thinkingActions_quiet by (simp add: quiet_append)
    show ?thesis
    proof (cases "carriesToolCalls response")
      case False
      have "ended ((acts0 @ thinkingActions response)
                     @ handleDirectResponse e (responseText response) ?c2)"
        using quiet_ended_append [OF qt ended_done] by (simp add: handleDirectResponse_def)
      with False inner Continue t assms show ?thesis
        by (auto simp: loopPassJS_def unlessFault_faultless emitting_Some directJS_def
              carriesToolCalls_def Let_def split: response.splits)
    next
      case True
      then obtain m where m: "response = Message m" "hasToolCalls m"
        by (auto simp: carriesToolCalls_def split: response.splits)
      from executeJS_faultless [OF assms, of e a s1 m ?c2] obtain acts p where
        batch: "executeJS w e a s1 m ?c2 = Some (acts, p)"
        and shape': "case p of
                 Continue s' \<Rightarrow> quiet acts \<and> iteration (ctx s') = iteration ?c2
               | Stop Returned \<Rightarrow> ended acts
               | Stop (Thrown message) \<Rightarrow> False"
        by blast
      from inner Continue t m batch assms
      have result: "loopPassJS w e a s = Some ((acts0 @ thinkingActions response) @ acts, p)"
        by (simp add: loopPassJS_def unlessFault_faultless emitting_Some Let_def)
      from shape' qt it show ?thesis
        unfolding result
        by (auto simp: quiet_append quiet_ended_append contextAfterResponse_iteration
              split: progress.splits ending.splits)
    qed
  qed
qed

text \<open>
  Without faults and with a budget within reach, the main loop returns, and its actions
  are a complete run.
\<close>

lemma ended_not_thrown:
  assumes "faultless w" and "safeBudget (iterationBudget w a)"
  shows "\<exists>acts. agentLoopJS w e a s = Some (acts, Returned) \<and> ended acts"
proof -
  define remaining where "remaining = (\<lambda>s :: loop_state. case iterationBudget w a of
      Number r \<Rightarrow> nat (\<lceil>r\<rceil> - iteration (ctx s)) | _ \<Rightarrow> 0)"
  show ?thesis
  proof (induction "remaining s" arbitrary: s rule: less_induct)
    case less
    show ?case
    proof (cases "belowBudget (iteration (ctx s)) (iterationBudget w a)")
      case False
      with assms(1) show ?thesis
        by (subst agentLoopJS.simps) (simp add: faultless_def ended_done)
    next
      case True
      with assms(2) obtain r where r: "iterationBudget w a = Number r" "real_of_int (iteration (ctx s)) < r"
        "r \<le> 2 ^ 53"
        by (auto simp: belowBudget_def safeBudget_def split: js_number.splits)
      then have small: "iteration (ctx s) < 2 ^ 53" "iteration (ctx s) < \<lceil>r\<rceil>"
        by (simp_all add: less_ceiling_iff)
      from loopPassJS_faultless [OF assms(1), of e a s] obtain acts p where
        pass: "loopPassJS w e a s = Some (acts, p)"
        and shape: "case p of
                 Continue s' \<Rightarrow> quiet acts \<and> iteration (ctx s') = increment (iteration (ctx s))
               | Stop Returned \<Rightarrow> ended acts
               | Stop (Thrown message) \<Rightarrow> False"
        by blast
      show ?thesis
      proof (cases p)
        case (Stop ending)
        with shape True pass show ?thesis
          by (subst agentLoopJS.simps) (auto split: ending.splits)
      next
        case (Continue s')
        with shape have q: "quiet acts" and it: "iteration (ctx s') = iteration (ctx s) + 1"
          using small(1) by (simp_all add: increment_def)
        from it small(2) r(1) have "remaining s' < remaining s"
          by (simp add: remaining_def)
        from less [OF this] obtain rest where
          rest: "agentLoopJS w e a s' = Some (rest, Returned)" "ended rest" by blast
        from True pass Continue rest(1)
        have "agentLoopJS w e a s = Some (acts @ rest, Returned)"
          by (subst agentLoopJS.simps) (simp add: emitting_Some)
        with quiet_ended_append [OF q rest(2)] show ?thesis by simp
      qed
    qed
  qed
qed

lemma faultless_exampleRuntime: "faultless (exampleRuntime b)"
  by (simp add: faultless_def exampleRuntime_def)

subsection \<open>The inner loop, one step at a time\<close>

lemma attemptJS_responded:
  assumes "faultless w"
    and "callModel e a (modelCalls s) (currentPrompt s) = Inr (response, usage)"
  shows "callModelLoopJS w e a s =
           Some ([CallModel (currentPrompt s)],
                 Continue (s\<lparr>overflowRetries := 0, modelCalls := Suc (modelCalls s)\<rparr>,
                           response, usage))"
  using assms
  by (simp add: callModelLoopJS.simps [of w e a s] attemptJS_def faultless_def emitting_Some)

lemma callModelLoopJS_retry:
  assumes "faultless w"
    and "callModel e a (modelCalls s) (currentPrompt s) = Inl errorMessage"
    and "isContextOverflowError e errorMessage"
    and "overflowRetries s < MAX_OVERFLOW_RETRIES"
    and "pruneWith w OVERFLOW_KEEP_TOOL_USES (scratchpad (ctx s)) = (clearedCount, sp)"
    and "0 < clearedCount"
  shows "callModelLoopJS w e a s =
           emitting [CallModel (currentPrompt s),
                     Yield (ContextCleared clearedCount OVERFLOW_KEEP_TOOL_USES)]
             (callModelLoopJS w e a
                (s\<lparr>ctx := (ctx s)\<lparr>scratchpad := sp\<rparr>,
                   currentPrompt := iterationPrompt e ((ctx s)\<lparr>scratchpad := sp\<rparr>),
                   overflowRetries := Suc (overflowRetries s),
                   modelCalls := Suc (modelCalls s)\<rparr>))"
proof -
  let ?s' = "s\<lparr>ctx := (ctx s)\<lparr>scratchpad := sp\<rparr>,
                currentPrompt := iterationPrompt e ((ctx s)\<lparr>scratchpad := sp\<rparr>),
                overflowRetries := Suc (overflowRetries s),
                modelCalls := Suc (modelCalls s)\<rparr>"
  from assms have "attemptJS w e a s =
      Some ([CallModel (currentPrompt s),
             Yield (ContextCleared clearedCount OVERFLOW_KEEP_TOOL_USES)],
            Continue (Again ?s'))"
    by (simp add: attemptJS_def unlessFault_faultless emitting_Some Let_def faultless_def)
  then show ?thesis
    by (simp add: callModelLoopJS.simps [of w e a s])
qed

lemma callModelLoopJS_failure:
  assumes "faultless w" and "pruneWith w = clearOldestToolResults"
    and "callModel e a (modelCalls s) (currentPrompt s) = Inl errorMessage"
    and "\<not> (isContextOverflowError e errorMessage \<and> overflowRetries s < MAX_OVERFLOW_RETRIES
            \<and> 0 < fst (clearOldestToolResults OVERFLOW_KEEP_TOOL_USES (scratchpad (ctx s))))"
  shows "callModelLoopJS w e a s =
           Some ([CallModel (currentPrompt s), errorDone e errorMessage (ctx s)], Stop Returned)"
proof (cases "isContextOverflowError e errorMessage \<and> overflowRetries s < MAX_OVERFLOW_RETRIES")
  case False
  with assms(1,3) have "attemptJS w e a s =
      Some ([CallModel (currentPrompt s), errorDone e errorMessage (ctx s)], Stop Returned)"
    by (auto simp: attemptJS_def unlessFault_faultless failedJS_def emitting_Some Let_def
          errorDone_def faultless_def)
  then show ?thesis
    by (simp add: callModelLoopJS.simps [of w e a s])
next
  case True
  with assms(4) have "fst (clearOldestToolResults OVERFLOW_KEEP_TOOL_USES (scratchpad (ctx s))) = 0"
    by simp
  moreover from this have "snd (clearOldestToolResults OVERFLOW_KEEP_TOOL_USES (scratchpad (ctx s)))
      = scratchpad (ctx s)"
    by (simp add: clearOldestToolResults_def Let_def discardOldest_zero)
  ultimately have "attemptJS w e a s =
      Some ([CallModel (currentPrompt s), errorDone e errorMessage (ctx s)], Stop Returned)"
    using True assms(1,2,3)
    by (simp add: attemptJS_def unlessFault_faultless failedJS_def emitting_Some Let_def
          errorDone_def faultless_def)
  then show ?thesis
    by (simp add: callModelLoopJS.simps [of w e a s])
qed

lemma loopPassJS_direct:
  assumes "faultless w"
    and "callModelLoopJS w e a (startPassJS s) = Some (acts0, Continue (s1, response, usage))"
    and "\<not> carriesToolCalls response"
  shows "loopPassJS w e a s =
           Some (acts0 @ handleDirectResponse e (responseText response)
                           ((ctx s1)\<lparr>tokenCounter := addUsage usage (tokenCounter (ctx s1))\<rparr>),
                 Stop Returned)"
  using assms
  by (auto simp: loopPassJS_def unlessFault_faultless emitting_Some directJS_def
        thinkingActions_def emitsThinking_def contextAfterResponse_def Let_def
        carriesToolCalls_def responseText_def split: response.splits)

subsection \<open>Two overflows in a row\<close>

text \<open>
  Claim C3. Let the model call of a pass throw a context-overflow error, let pruning to
  the 3 most recent tool-use records discard \<open>n1 > 0\<close> payloads, let the retry throw a
  context-overflow error again, let the second pruning discard \<open>n2 > 0\<close> payloads, and
  let the third attempt succeed. Then the inner loop makes exactly three model calls,
  emits exactly two \<^verbatim>\<open>context_cleared\<close> events (with \<open>n1\<close> and \<open>n2\<close> and the keep-count 3)
  and hands the response to the pass. If the response carries no tool calls, the run
  ends there with the \<^verbatim>\<open>done\<close> event whose answer is the text of the response: it
  completes successfully with exactly two \<^verbatim>\<open>context_cleared\<close> events. (A response with
  tool calls is handed to the executor, and the run goes on with the next pass.) The
  pass may be the first of the run or a later one. The pruning operation is the
  parameter \<open>pruneWith\<close>, so the theorem holds whatever the operation of the scratchpad
  does; no collaborator fails other than the model call, and the budget admits the pass.
\<close>

theorem overflow_twice_then_success:
  assumes "faultless w"
    and "belowBudget (iteration (ctx s)) (iterationBudget w a)"
    and "overflowRetries s = 0"
    and "callModel e a (modelCalls s) (currentPrompt s) = Inl firstError"
    and "isContextOverflowError e firstError"
    and "pruneWith w OVERFLOW_KEEP_TOOL_USES (scratchpad (ctx s)) = (n1, sp1)"
    and "0 < n1"
    and "callModel e a (modelCalls s + 1) (iterationPrompt e ((ctx s)\<lparr>scratchpad := sp1\<rparr>))
           = Inl secondError"
    and "isContextOverflowError e secondError"
    and "pruneWith w OVERFLOW_KEEP_TOOL_USES sp1 = (n2, sp2)"
    and "0 < n2"
    and "callModel e a (modelCalls s + 2) (iterationPrompt e ((ctx s)\<lparr>scratchpad := sp2\<rparr>))
           = Inr (response, usage)"
  shows "callModelLoopJS w e a (startPassJS s) =
           Some ([CallModel (currentPrompt s),
                  Yield (ContextCleared n1 3),
                  CallModel (iterationPrompt e ((ctx s)\<lparr>scratchpad := sp1\<rparr>)),
                  Yield (ContextCleared n2 3),
                  CallModel (iterationPrompt e ((ctx s)\<lparr>scratchpad := sp2\<rparr>))],
                 Continue (s\<lparr>ctx := (ctx s)\<lparr>iteration := increment (iteration (ctx s)),
                                           scratchpad := sp2\<rparr>,
                              currentPrompt := iterationPrompt e ((ctx s)\<lparr>scratchpad := sp2\<rparr>),
                              overflowRetries := 0,
                              modelCalls := modelCalls s + 3\<rparr>,
                           response, usage))
         \<and> (\<not> carriesToolCalls response \<longrightarrow>
              agentLoopJS w e a s =
                Some ([CallModel (currentPrompt s),
                       Yield (ContextCleared n1 3),
                       CallModel (iterationPrompt e ((ctx s)\<lparr>scratchpad := sp1\<rparr>)),
                       Yield (ContextCleared n2 3),
                       CallModel (iterationPrompt e ((ctx s)\<lparr>scratchpad := sp2\<rparr>)),
                       Yield (Done \<lparr>answer = responseText response,
                                    toolCalls = getToolCallRecords sp2,
                                    iterations = increment (iteration (ctx s)),
                                    totalTime = now e 2 - startTime (ctx s),
                                    tokenUsage =
                                      Some (getUsage (addUsage usage (tokenCounter (ctx s)))),
                                    tokensPerSecond =
                                      Some (getTokensPerSecond
                                              (addUsage usage (tokenCounter (ctx s)))
                                              (now e 2 - startTime (ctx s)))\<rparr>)],
                      Returned))"
proof -
  let ?p1 = "iterationPrompt e ((ctx s)\<lparr>scratchpad := sp1\<rparr>)"
  let ?p2 = "iterationPrompt e ((ctx s)\<lparr>scratchpad := sp2\<rparr>)"
  let ?s0 = "startPassJS s"
  let ?c0 = "(ctx s)\<lparr>iteration := increment (iteration (ctx s))\<rparr>"
  let ?s1 = "s\<lparr>ctx := ?c0\<lparr>scratchpad := sp1\<rparr>, currentPrompt := ?p1,
               overflowRetries := 1, modelCalls := Suc (modelCalls s)\<rparr>"
  let ?s2 = "s\<lparr>ctx := ?c0\<lparr>scratchpad := sp2\<rparr>, currentPrompt := ?p2,
               overflowRetries := 2, modelCalls := Suc (Suc (modelCalls s))\<rparr>"
  let ?s3 = "s\<lparr>ctx := (ctx s)\<lparr>iteration := increment (iteration (ctx s)), scratchpad := sp2\<rparr>,
               currentPrompt := ?p2, overflowRetries := 0, modelCalls := modelCalls s + 3\<rparr>"
  have prompts: "iterationPrompt e (?c0\<lparr>scratchpad := sp1\<rparr>) = ?p1"
    "iterationPrompt e (?c0\<lparr>scratchpad := sp2\<rparr>) = ?p2"
    by (simp_all add: iterationPrompt_def)
  have third: "callModelLoopJS w e a ?s2 = Some ([CallModel ?p2], Continue (?s3, response, usage))"
    using attemptJS_responded [OF assms(1), of e a ?s2 response usage] assms(12)
    by simp
  have second: "callModelLoopJS w e a ?s1 =
      Some ([CallModel ?p1, Yield (ContextCleared n2 3), CallModel ?p2],
            Continue (?s3, response, usage))"
    using callModelLoopJS_retry [OF assms(1), of e a ?s1 secondError n2 sp2] assms(8-11) third
    by (simp add: MAX_OVERFLOW_RETRIES_def OVERFLOW_KEEP_TOOL_USES_def prompts emitting_Some
          numeral_2_eq_2)
  have first: "callModelLoopJS w e a ?s0 =
      Some ([CallModel (currentPrompt s), Yield (ContextCleared n1 3), CallModel ?p1,
             Yield (ContextCleared n2 3), CallModel ?p2],
            Continue (?s3, response, usage))"
    using callModelLoopJS_retry [OF assms(1), of e a ?s0 firstError n1 sp1] assms(3-7) second
    by (simp add: MAX_OVERFLOW_RETRIES_def OVERFLOW_KEEP_TOOL_USES_def prompts emitting_Some
          startPassJS_def)
  have "agentLoopJS w e a s =
      Some ([CallModel (currentPrompt s), Yield (ContextCleared n1 3), CallModel ?p1,
             Yield (ContextCleared n2 3), CallModel ?p2,
             Yield (Done \<lparr>answer = responseText response,
                          toolCalls = getToolCallRecords sp2,
                          iterations = increment (iteration (ctx s)),
                          totalTime = now e 2 - startTime (ctx s),
                          tokenUsage = Some (getUsage (addUsage usage (tokenCounter (ctx s)))),
                          tokensPerSecond =
                            Some (getTokensPerSecond (addUsage usage (tokenCounter (ctx s)))
                                    (now e 2 - startTime (ctx s)))\<rparr>)],
            Returned)"
    if direct: "\<not> carriesToolCalls response"
  proof -
    from loopPassJS_direct [OF assms(1) first direct] have "loopPassJS w e a s =
        Some ([CallModel (currentPrompt s), Yield (ContextCleared n1 3), CallModel ?p1,
               Yield (ContextCleared n2 3), CallModel ?p2]
              @ handleDirectResponse e (responseText response)
                  ((ctx ?s3)\<lparr>tokenCounter := addUsage usage (tokenCounter (ctx s))\<rparr>),
              Stop Returned)"
      by simp
    with assms(2) show ?thesis
      by (subst agentLoopJS.simps)
         (simp add: handleDirectResponse_def doneEvent_def Let_def)
  qed
  with first show ?thesis by blast
qed

text \<open>
  The theorem at a run with the pruning operation that discards one payload per call, on
  a scratchpad of five records: three model calls, two \<^verbatim>\<open>context_cleared\<close> events, and
  the answer.
\<close>

theorem overflow_twice_then_success_witness:
  "faultless gradualRuntime
   \<and> belowBudget (iteration (ctx (exampleState fiveRecords 0)))
        (iterationBudget gradualRuntime (exampleAgent 10 [''search'']))
   \<and> overflowRetries (exampleState fiveRecords 0) = 0
   \<and> callModel (scriptedEnv (overflowThenAnswer 2) searchExecutor) (exampleAgent 10 [''search''])
        0 ''p'' = Inl ''context_length_exceeded''
   \<and> isContextOverflowError (scriptedEnv (overflowThenAnswer 2) searchExecutor)
        ''context_length_exceeded''
   \<and> pruneWith gradualRuntime OVERFLOW_KEEP_TOOL_USES fiveRecords
       = (1, ToolUse (exampleRecord ''a'') False # tl fiveRecords)
   \<and> callModel (scriptedEnv (overflowThenAnswer 2) searchExecutor) (exampleAgent 10 [''search''])
        1 ''qbcdeabcde'' = Inl ''context_length_exceeded''
   \<and> pruneWith gradualRuntime OVERFLOW_KEEP_TOOL_USES
        (ToolUse (exampleRecord ''a'') False # tl fiveRecords)
       = (1, ToolUse (exampleRecord ''a'') False # ToolUse (exampleRecord ''b'') False
               # tl (tl fiveRecords))
   \<and> callModel (scriptedEnv (overflowThenAnswer 2) searchExecutor) (exampleAgent 10 [''search''])
        2 ''qcdeabcde'' = Inr (Text ''answer'', None)
   \<and> \<not> carriesToolCalls (Text ''answer'')
   \<and> agentLoopJS gradualRuntime (scriptedEnv (overflowThenAnswer 2) searchExecutor)
        (exampleAgent 10 [''search'']) (exampleState fiveRecords 0)
       = Some ([CallModel ''p'', Yield (ContextCleared 1 3), CallModel ''qbcdeabcde'',
                Yield (ContextCleared 1 3), CallModel ''qcdeabcde'',
                Yield (Done \<lparr>answer = ''answer'',
                             toolCalls = map exampleRecord [''a'', ''b'', ''c'', ''d'', ''e''],
                             iterations = 2, totalTime = 100,
                             tokenUsage = Some \<lparr>promptTokens = 0, completionTokens = 0,
                                                 totalTokens = 0\<rparr>,
                             tokensPerSecond = Some 0\<rparr>)],
               Returned)
   \<and> length (filter isContextCleared
        [CallModel ''p'', Yield (ContextCleared 1 3), CallModel ''qbcdeabcde'',
         Yield (ContextCleared 1 3), CallModel ''qcdeabcde'']) = 2"
proof -
  let ?w = gradualRuntime
  let ?e = "scriptedEnv (overflowThenAnswer 2) searchExecutor"
  let ?a = "exampleAgent 10 [''search'']"
  let ?s = "exampleState fiveRecords 0"
  let ?sp1 = "ToolUse (exampleRecord ''a'') False # tl fiveRecords"
  let ?sp2 = "ToolUse (exampleRecord ''a'') False # ToolUse (exampleRecord ''b'') False
               # tl (tl fiveRecords)"
  have clean: "faultless ?w"
    by (simp add: faultless_def gradualRuntime_def exampleRuntime_def)
  have below: "belowBudget (iteration (ctx ?s)) (iterationBudget ?w ?a)"
    by (simp add: belowBudget_def iterationBudget_def gradualRuntime_def exampleRuntime_def
          exampleState_def exampleAgent_def)
  have retries: "overflowRetries ?s = 0"
    by (simp add: exampleState_def)
  have overflow: "isContextOverflowError ?e ''context_length_exceeded''"
    by (simp add: scriptedEnv_def)
  have call0: "callModel ?e ?a 0 ''p'' = Inl ''context_length_exceeded''"
    and call1: "callModel ?e ?a 1 ''qbcdeabcde'' = Inl ''context_length_exceeded''"
    and call2: "callModel ?e ?a 2 ''qcdeabcde'' = Inr (Text ''answer'', None)"
    by (simp_all add: callModel_def scriptedEnv_def overflowThenAnswer_def)
  have prune1: "pruneWith ?w OVERFLOW_KEEP_TOOL_USES fiveRecords = (1, ?sp1)"
    and prune2: "pruneWith ?w OVERFLOW_KEEP_TOOL_USES ?sp1 = (1, ?sp2)"
    by (simp_all add: gradualRuntime_def exampleRuntime_def gradualPruning_def fiveRecords_def
          fourRecords_def OVERFLOW_KEEP_TOOL_USES_def)
  have prompt1: "iterationPrompt ?e ((ctx ?s)\<lparr>scratchpad := ?sp1\<rparr>) = ''qbcdeabcde''"
    and prompt2: "iterationPrompt ?e ((ctx ?s)\<lparr>scratchpad := ?sp2\<rparr>) = ''qcdeabcde''"
    by (simp_all add: iterationPrompt_def scriptedEnv_def exampleState_def fiveRecords_def
          fourRecords_def exampleRecord_def getToolResults_def formatToolUsageForPrompt_def)
  have direct: "\<not> carriesToolCalls (Text ''answer'')"
    by (simp add: carriesToolCalls_def)
  have counted: "length (filter isContextCleared
        [CallModel ''p'', Yield (ContextCleared 1 3), CallModel ''qbcdeabcde'',
         Yield (ContextCleared 1 3), CallModel ''qcdeabcde'']) = 2"
    by simp
  have first: "callModel ?e ?a (modelCalls ?s) (currentPrompt ?s) = Inl ''context_length_exceeded''"
    using call0 by (simp add: exampleState_def)
  have pruned: "pruneWith ?w OVERFLOW_KEEP_TOOL_USES (scratchpad (ctx ?s)) = (1, ?sp1)"
    using prune1 by (simp add: exampleState_def)
  have second: "callModel ?e ?a (modelCalls ?s + 1)
      (iterationPrompt ?e ((ctx ?s)\<lparr>scratchpad := ?sp1\<rparr>)) = Inl ''context_length_exceeded''"
    unfolding prompt1
    by (simp add: callModel_def scriptedEnv_def overflowThenAnswer_def exampleState_def)
  have third: "callModel ?e ?a (modelCalls ?s + 2)
      (iterationPrompt ?e ((ctx ?s)\<lparr>scratchpad := ?sp2\<rparr>)) = Inr (Text ''answer'', None)"
    unfolding prompt2
    by (simp add: callModel_def scriptedEnv_def overflowThenAnswer_def exampleState_def)
  have positive: "0 < (1 :: nat)"
    by simp
  note run = overflow_twice_then_success [OF clean below retries first overflow pruned positive
      second overflow prune2 positive third, THEN conjunct2, rule_format, OF direct]
  have "agentLoopJS ?w ?e ?a ?s
       = Some ([CallModel ''p'', Yield (ContextCleared 1 3), CallModel ''qbcdeabcde'',
                Yield (ContextCleared 1 3), CallModel ''qcdeabcde'',
                Yield (Done \<lparr>answer = ''answer'',
                             toolCalls = map exampleRecord [''a'', ''b'', ''c'', ''d'', ''e''],
                             iterations = 2, totalTime = 100,
                             tokenUsage = Some \<lparr>promptTokens = 0, completionTokens = 0,
                                                 totalTokens = 0\<rparr>,
                             tokensPerSecond = Some 0\<rparr>)],
               Returned)"
    unfolding run prompt1 prompt2
    by (simp add: exampleState_def fiveRecords_def fourRecords_def scriptedEnv_def
          responseText_def increment_def addUsage_def getUsage_def getTokensPerSecond_def
          emptyUsage_def)
  with clean below retries call0 call1 call2 overflow prune1 prune2 direct counted
  show ?thesis by blast
qed

text \<open>
  With the pruning operation of section \<open>Scratchpad\<close> the two hypotheses on pruning do not
  hold together: the second of two prunings to the same keep-count discards nothing.
\<close>

lemma no_second_discard:
  assumes "pruneWith w = clearOldestToolResults"
    and "pruneWith w keepCount sp = (n1, sp1)"
    and "pruneWith w keepCount sp1 = (n2, sp2)"
  shows "n2 = 0"
  using assms clearOldestToolResults_again [of keepCount sp] by simp

subsection \<open>The two embeddings agree\<close>

text \<open>
  Without faults, with the pruning operation of section \<open>Scratchpad\<close> and with an integer
  budget of magnitude at most \<open>2\<^sup>5\<^sup>3\<close>, the loop with faults returns, and its actions are
  those of the loop of section \<open>The agent loop\<close>.
\<close>

lemma callModelLoopJS_refines:
  assumes "faultless w" and "pruneWith w = clearOldestToolResults"
  shows "callModelLoopJS w e a s =
           Some (fst (callModelLoop e a s), asProgress (snd (callModelLoop e a s)))"
proof (induction "MAX_OVERFLOW_RETRIES - overflowRetries s" arbitrary: s rule: less_induct)
  case less
  show ?case
  proof (cases "callModel e a (modelCalls s) (currentPrompt s)")
    case (Inr ok)
    obtain response usage where ok: "ok = (response, usage)"
      by (cases ok)
    from attemptJS_responded [OF assms(1) Inr [unfolded ok]]
      callModelLoop_success [OF Inr [unfolded ok]]
    show ?thesis
      by (simp add: asProgress_def)
  next
    case (Inl errorMessage)
    show ?thesis
    proof (cases "isContextOverflowError e errorMessage \<and> overflowRetries s < MAX_OVERFLOW_RETRIES
            \<and> 0 < fst (clearOldestToolResults OVERFLOW_KEEP_TOOL_USES (scratchpad (ctx s)))")
      case False
      from callModelLoopJS_failure [OF assms Inl False] callModelLoop_failure [OF Inl False]
      show ?thesis
        by (simp add: asProgress_def)
    next
      case True
      let ?pruned = "clearOldestToolResults OVERFLOW_KEEP_TOOL_USES (scratchpad (ctx s))"
      have same: "s\<lparr>ctx := (ctx s)\<lparr>scratchpad := snd ?pruned\<rparr>,
                     currentPrompt := iterationPrompt e ((ctx s)\<lparr>scratchpad := snd ?pruned\<rparr>),
                     overflowRetries := Suc (overflowRetries s),
                     modelCalls := Suc (modelCalls s)\<rparr> = retryState e s"
        by (simp add: retryState_def Let_def)
      from True have "MAX_OVERFLOW_RETRIES - overflowRetries (retryState e s)
          < MAX_OVERFLOW_RETRIES - overflowRetries s"
        by (auto simp: retryState_def Let_def)
      note inner = less [OF this]
      have pruned: "pruneWith w OVERFLOW_KEEP_TOOL_USES (scratchpad (ctx s))
          = (fst ?pruned, snd ?pruned)"
        by (simp add: assms(2))
      from True callModelLoopJS_retry [OF assms(1) Inl _ _ pruned]
      have "callModelLoopJS w e a s =
          emitting [CallModel (currentPrompt s),
                    Yield (ContextCleared (fst ?pruned) OVERFLOW_KEEP_TOOL_USES)]
            (callModelLoopJS w e a (retryState e s))"
        by (simp add: same)
      with inner True callModelLoop_retry [OF Inl] show ?thesis
        by (simp add: emitting_Some)
    qed
  qed
qed

lemma manageContextThresholdJS_refines:
  "pruneWith w = clearOldestToolResults \<Longrightarrow>
     manageContextThresholdJS w e a c = manageContextThreshold e a c"
  by (simp add: manageContextThresholdJS_def manageContextThreshold_def)

lemma startPassJS_refines: "iteration (ctx s) < 2 ^ 53 \<Longrightarrow> startPassJS s = startPass s"
  by (simp add: startPassJS_def startPass_def increment_def)

lemma loopPassJS_refines:
  assumes "faultless w" and "pruneWith w = clearOldestToolResults"
    and "iteration (ctx s) < 2 ^ 53"
  shows "loopPassJS w e a s = Some (fst (loopPass e a s), asProgress (snd (loopPass e a s)))"
proof -
  obtain acts0 r0 where inner: "callModelLoop e a (startPass s) = (acts0, r0)"
    by (cases "callModelLoop e a (startPass s)")
  with callModelLoopJS_refines [OF assms(1,2), of e a "startPass s"]
  have innerJS: "callModelLoopJS w e a (startPassJS s) = Some (acts0, asProgress r0)"
    by (simp add: startPassJS_refines [OF assms(3)])
  show ?thesis
  proof (cases r0)
    case None
    with inner innerJS loopPass_returned [of e a s acts0] show ?thesis
      by (simp add: loopPassJS_def asProgress_def)
  next
    case (Some x)
    obtain s1 response usage where x: "x = (s1, response, usage)"
      by (cases x)
    note inner' = inner [unfolded Some x]
    from innerJS Some x
    have innerJS': "callModelLoopJS w e a (startPassJS s) = Some (acts0, Continue (s1, response, usage))"
      by (simp add: asProgress_def)
    show ?thesis
    proof (cases "carriesToolCalls response")
      case False
      from loopPassJS_direct [OF assms(1) innerJS' False] loopPass_direct [OF inner' False]
      show ?thesis
        by (simp add: asProgress_def)
    next
      case True
      then obtain m where m: "response = Message m" "hasToolCalls m"
        by (auto simp: carriesToolCalls_def split: response.splits)
      let ?c2 = "contextAfterResponse (ctx s1) (Message m) usage"
      obtain toolActs c3 denied where batch:
        "consumeToolEvents (executeAll e m ?c2) ?c2 = (toolActs, c3, denied)"
        by (cases "consumeToolEvents (executeAll e m ?c2) ?c2")
      note pass = loopPass_tools [OF inner' [unfolded m(1)] m(2) batch]
      from assms(1) have none: "executorFault w m ?c2 = None"
        by (simp add: faultless_def)
      from innerJS' m batch none assms(1,2)
      have "loopPassJS w e a s =
          (if denied
           then Some (acts0 @ thinkingActions (Message m) @ toolActs
                        @ [Yield (Done (doneEvent e [] c3))], Stop Returned)
           else Some (acts0 @ thinkingActions (Message m) @ toolActs
                        @ fst (manageContextThreshold e a c3),
                      Continue (s1\<lparr>ctx := snd (manageContextThreshold e a c3),
                                  currentPrompt :=
                                    iterationPrompt e (snd (manageContextThreshold e a c3))\<rparr>)))"
        by (simp add: loopPassJS_def executeJS_def unlessFault_faultless emitting_Some Let_def
              manageContextThresholdJS_refines case_prod_beta)
      with pass show ?thesis
        by (simp add: asProgress_def)
    qed
  qed
qed

lemma budgetMessage_refines:
  assumes "configuredBudget w = None" and "\<bar>maxIterations a\<bar> \<le> 2 ^ 53"
  shows "budgetMessage w a = maxIterationsMessage a"
proof -
  from assms(2) have "\<bar>real_of_int (maxIterations a)\<bar> < 10 ^ 21"
  proof -
    have "(2 :: int) ^ 53 < 10 ^ 21" by simp
    with assms(2) have "\<bar>maxIterations a\<bar> < 10 ^ 21" by linarith
    then have "real_of_int \<bar>maxIterations a\<bar> < real_of_int (10 ^ 21)"
      by (simp only: of_int_less_iff)
    then show ?thesis by simp
  qed
  with assms(1) show ?thesis
    by (simp add: budgetMessage_def maxIterationsMessage_def numberToStringJS_def
          iterationBudget_def)
qed

lemma agentLoopJS_refines:
  assumes "faultless w" and "pruneWith w = clearOldestToolResults"
    and "configuredBudget w = None" and "\<bar>maxIterations a\<bar> \<le> 2 ^ 53"
  shows "agentLoopJS w e a s = Some (agentLoop e a s, Returned)"
  using assms
proof (induction e a s rule: agentLoop.induct)
  case (1 e a s)
  have budget: "belowBudget (iteration (ctx s)) (iterationBudget w a)
      = (iteration (ctx s) < maxIterations a)"
    using "1.prems"(3) by (simp add: belowBudget_def iterationBudget_def)
  show ?case
  proof (cases "iteration (ctx s) < maxIterations a")
    case False
    with budget "1.prems"(1) budgetMessage_refines [OF "1.prems"(3,4)] show ?thesis
      by (subst agentLoopJS.simps) (simp add: agentLoop.simps [of e a s] faultless_def)
  next
    case True
    with "1.prems"(4) have "iteration (ctx s) < 2 ^ 53" by simp
    note passJS = loopPassJS_refines [OF "1.prems"(1,2) this, of e a]
    obtain acts r where pass: "loopPass e a s = (acts, r)"
      by (cases "loopPass e a s")
    show ?thesis
    proof (cases r)
      case None
      with True budget passJS pass show ?thesis
        by (subst agentLoopJS.simps) (simp add: agentLoop.simps [of e a s] asProgress_def)
    next
      case (Some s')
      from "1.IH" [OF True pass [symmetric] Some "1.prems"]
      have "agentLoopJS w e a s' = Some (agentLoop e a s', Returned)" .
      with True budget passJS pass Some show ?thesis
        by (subst agentLoopJS.simps)
           (simp add: agentLoop.simps [of e a s] asProgress_def emitting_Some)
    qed
  qed
qed

lemma runJS_refines:
  assumes "faultless w" and "pruneWith w = clearOldestToolResults"
    and "configuredBudget w = None" and "\<bar>maxIterations a\<bar> \<le> 2 ^ 53"
  shows "runJS w e a q h = Some (run e a q h, Returned)"
  using assms(1) agentLoopJS_refines [OF assms]
  by (simp add: runJS_def run_def faultless_def)

subsection \<open>The shape of a run that completes\<close>

lemma shaped_None: "shaped None"
  by (simp add: shaped_def)

lemma shaped_Continue: "shaped (Some (acts, Continue x)) = quiet acts"
  by (simp add: shaped_def)

lemma shaped_Returned: "shaped (Some (acts, Stop Returned)) = ended acts"
  by (simp add: shaped_def)

lemma shaped_Thrown: "shaped (Some (acts, Stop (Thrown message))) = (filter isDone acts = [])"
  by (simp add: shaped_def)

lemma shaped_unlessFault: "shaped k \<Longrightarrow> shaped (unlessFault w place s k)"
  by (auto simp: unlessFault_def shaped_def split: option.splits fault.splits)

lemma shaped_emitting:
  assumes "quiet xs" and "shaped r"
  shows "shaped (emitting xs r)"
proof (cases r)
  case None
  then show ?thesis by (simp add: emitting_None shaped_None)
next
  case (Some x)
  obtain acts p where x: "x = (acts, p)" by (cases x)
  show ?thesis
  proof (cases p)
    case (Continue y)
    with assms Some x show ?thesis
      by (simp add: emitting_Some shaped_Continue quiet_append)
  next
    case (Stop ending)
    with assms Some x show ?thesis
      by (cases ending)
         (simp_all add: emitting_Some shaped_Returned shaped_Thrown quiet_ended_append, 
          simp add: quiet_def)
  qed
qed

lemma shaped_failedJS: "shaped (failedJS w e errorMessage s)"
  unfolding failedJS_def by (rule shaped_unlessFault) (simp add: shaped_Returned ended_done)

lemma shaped_attemptJS: "shaped (attemptJS w e a s)"
proof (cases "modelNeverSettles w (modelCalls s)")
  case True
  then show ?thesis by (simp add: attemptJS_def shaped_None)
next
  case False
  have call: "quiet [CallModel (currentPrompt s)]"
    by (simp add: quiet_def)
  show ?thesis
  proof (cases "callModel e a (modelCalls s) (currentPrompt s)")
    case (Inr ok)
    with False show ?thesis
      by (cases ok) (simp add: attemptJS_def emitting_Some shaped_Continue quiet_def)
  next
    case (Inl errorMessage)
    have cleared: "quiet [Yield (ContextCleared n k)]" for n k
      by (simp add: quiet_def)
    from False Inl show ?thesis
      unfolding attemptJS_def
      by (auto simp: Let_def shaped_Continue quiet_Nil
            intro!: shaped_emitting shaped_unlessFault shaped_failedJS call cleared)
  qed
qed

lemma shaped_callModelLoopJS: "shaped (callModelLoopJS w e a s)"
proof (induction w e a s rule: callModelLoopJS.induct)
  case (1 w e a s)
  show ?case
  proof (cases "attemptJS w e a s")
    case None
    then show ?thesis
      by (simp add: callModelLoopJS.simps [of w e a s] shaped_None)
  next
    case (Some x)
    obtain acts p where x: "x = (acts, p)" by (cases x)
    from shaped_attemptJS [of w e a s] Some x have shape: "shaped (Some (acts, p))"
      by simp
    show ?thesis
    proof (cases p)
      case (Stop ending)
      with Some x shape show ?thesis
        by (cases ending)
           (simp_all add: callModelLoopJS.simps [of w e a s] shaped_Returned shaped_Thrown)
    next
      case (Continue t)
      with shape have q: "quiet acts"
        by (simp add: shaped_Continue)
      show ?thesis
      proof (cases t)
        case (Responded s' response usage)
        with Some x Continue q show ?thesis
          by (simp add: callModelLoopJS.simps [of w e a s] shaped_Continue)
      next
        case (Again s')
        from shaped_emitting [OF q "1.IH" [OF Some x [symmetric] Continue Again]]
          Some x Continue Again
        show ?thesis
          by (simp add: callModelLoopJS.simps [of w e a s])
      qed
    qed
  qed
qed

lemma shaped_executeJS: "shaped (executeJS w e a s m c)"
proof -
  define steps where "steps = (case executorFault w m c of
                     None \<Rightarrow> executeAll e m c
                   | Some (k, f) \<Rightarrow> take k (executeAll e m c))"
  obtain toolActs c3 denied where batch: "consumeToolEvents steps c = (toolActs, c3, denied)"
    by (cases "consumeToolEvents steps c")
  show ?thesis
  proof (cases denied)
    case True
    with consumeToolEvents_shape [OF batch] obtain pre y where
      pre: "toolActs = pre @ [Yield (ToolEvent (ToolDenied y))]" "quiet pre" by auto
    from quiet_ended_append [OF pre(2) ended_denied_done [of "doneEvent e [] c3" y]]
    have "ended (toolActs @ [Yield (Done (doneEvent e [] c3))])"
      using pre(1) by (simp add: doneEvent_def Let_def)
    moreover from pre have "filter isDone toolActs = []"
      by (simp add: quiet_def)
    ultimately show ?thesis
      using True batch
      by (simp add: executeJS_def steps_def [symmetric] unlessFault_def emitting_Some
            emitting_None shaped_Returned shaped_Thrown shaped_None
            split: option.splits fault.splits)
  next
    case False
    with consumeToolEvents_shape [OF batch] have q: "quiet toolActs" by simp
    have rest: "shaped (unlessFault w AtThreshold (s\<lparr>ctx := c3\<rparr>)
                         (case manageContextThresholdJS w e a c3 of
                            (cleared, c4) \<Rightarrow>
                              emitting cleared
                                (unlessFault w AtNextPrompt (s\<lparr>ctx := c4\<rparr>)
                                   (Some ([], Continue (s\<lparr>ctx := c4,
                                             currentPrompt := iterationPrompt e c4\<rparr>))))))"
      using manageContextThresholdJS_quiet [of w e a c3]
      by (auto simp: shaped_Continue quiet_Nil split: prod.splits
            intro!: shaped_unlessFault shaped_emitting)
    show ?thesis
    proof (cases "executorFault w m c")
      case None
      with batch have "consumeToolEvents (executeAll e m c) c = (toolActs, c3, denied)"
        by (simp add: steps_def)
      with None False shaped_emitting [OF q rest] show ?thesis
        by (simp add: executeJS_def)
    next
      case (Some kf)
      obtain k f where kf: "kf = (k, f)" by (cases kf)
      from q have "filter isDone toolActs = []"
        by (simp add: quiet_def)
      moreover from batch Some kf
      have "consumeToolEvents (take k (executeAll e m c)) c = (toolActs, c3, denied)"
        by (simp add: steps_def)
      ultimately show ?thesis
        using Some kf False
        by (cases f)
           (simp_all add: executeJS_def emitting_Some emitting_None shaped_Thrown shaped_None)
    qed
  qed
qed

lemma shaped_directJS: "shaped (directJS w e s text c)"
  unfolding directJS_def
  by (rule shaped_unlessFault) (simp add: shaped_Returned handleDirectResponse_def ended_done)

lemma shaped_loopPassJS: "shaped (loopPassJS w e a s)"
proof (cases "callModelLoopJS w e a (startPassJS s)")
  case None
  then show ?thesis
    by (simp add: loopPassJS_def shaped_None)
next
  case (Some x)
  obtain acts p where x: "x = (acts, p)" by (cases x)
  from shaped_callModelLoopJS [of w e a "startPassJS s"] Some x
  have shape: "shaped (Some (acts, p))"
    by simp
  show ?thesis
  proof (cases p)
    case (Stop ending)
    with Some x shape show ?thesis
      by (cases ending) (simp_all add: loopPassJS_def shaped_Returned shaped_Thrown)
  next
    case (Continue t)
    obtain s1 response usage where t: "t = (s1, response, usage)"
      by (cases t)
    from shape Continue have q: "quiet acts"
      by (simp add: shaped_Continue)
    have "shaped (emitting acts
            (unlessFault w AtResponse s1
               (let c2 = contextAfterResponse (ctx s1) response usage
                in emitting (thinkingActions response)
                     (unlessFault w AtDispatch (s1\<lparr>ctx := c2\<rparr>)
                        (case response of
                           Text t \<Rightarrow> directJS w e (s1\<lparr>ctx := c2\<rparr>) (responseText response) c2
                         | Message m \<Rightarrow>
                             if \<not> hasToolCalls m
                             then directJS w e (s1\<lparr>ctx := c2\<rparr>) (responseText response) c2
                             else executeJS w e a s1 m c2)))))"
      by (auto simp: Let_def split: response.splits
            intro!: shaped_emitting shaped_unlessFault q thinkingActions_quiet
                    shaped_directJS shaped_executeJS)
    with Some x Continue t show ?thesis
      by (simp add: loopPassJS_def)
  qed
qed

text \<open>
  A run that returns is a complete run: one \<^verbatim>\<open>done\<close> event, in last place. A run that
  throws has emitted no \<^verbatim>\<open>done\<close> event.
\<close>

lemma completed_loop_shape:
  assumes "agentLoopJS w e a s = Some (acts, ending)"
  shows "case ending of Returned \<Rightarrow> ended acts | Thrown message \<Rightarrow> filter isDone acts = []"
proof -
  have "case snd y of Returned \<Rightarrow> ended (fst y) | Thrown message \<Rightarrow> filter isDone (fst y) = []"
    if "agentLoopJS w e a s = Some y" for y
  proof (rule agentLoopJS.raw_induct
      [where P = "\<lambda>w e a s y. case snd y of Returned \<Rightarrow> ended (fst y)
                               | Thrown message \<Rightarrow> filter isDone (fst y) = []", OF _ that])
    fix loop :: "runtime \<Rightarrow> env \<Rightarrow> agent \<Rightarrow> loop_state \<Rightarrow> (action list \<times> ending) option"
    fix w e a s y
    assume ih: "\<And>w e a s y. loop w e a s = Some y \<Longrightarrow>
        (case snd y of Returned \<Rightarrow> ended (fst y) | Thrown message \<Rightarrow> filter isDone (fst y) = [])"
      and body: "(if belowBudget (iteration (ctx s)) (iterationBudget w a) then
                    (case loopPassJS w e a s of
                       None \<Rightarrow> None
                     | Some (acts, Stop ending) \<Rightarrow> Some (acts, ending)
                     | Some (acts, Continue s') \<Rightarrow> emitting acts (loop w e a s'))
                  else
                    (case faultAt w AtBudgetDone s of
                       None \<Rightarrow> Some ([Yield (Done (doneEvent e (budgetMessage w a) (ctx s)))],
                                     Returned)
                     | Some (Throws message) \<Rightarrow> Some ([], Thrown message)
                     | Some NeverSettles \<Rightarrow> None)) = Some y"
    show "case snd y of Returned \<Rightarrow> ended (fst y) | Thrown message \<Rightarrow> filter isDone (fst y) = []"
    proof (cases "belowBudget (iteration (ctx s)) (iterationBudget w a)")
      case False
      with body show ?thesis
        by (auto simp: ended_done split: option.splits fault.splits)
    next
      case True
      with body obtain acts p where pass: "loopPassJS w e a s = Some (acts, p)"
        by (cases "loopPassJS w e a s") auto
      from shaped_loopPassJS [of w e a s] pass have shape: "shaped (Some (acts, p))"
        by simp
      show ?thesis
      proof (cases p)
        case (Stop ending)
        with True body pass shape show ?thesis
          by (cases ending) (auto simp: shaped_Returned shaped_Thrown)
      next
        case (Continue s')
        with shape have q: "quiet acts"
          by (simp add: shaped_Continue)
        from True body pass Continue obtain rest where
          rest: "loop w e a s' = Some (rest, snd y)" and y: "fst y = acts @ rest"
          by (cases y) (auto simp: emitting_eq_Some)
        from ih [OF rest] q y show ?thesis
          by (cases "snd y") (simp_all add: quiet_ended_append, simp add: quiet_def)
      qed
    qed
  qed
  from this [OF assms] show ?thesis
    by (cases ending) simp_all
qed

lemma completed_run_shape:
  assumes "runJS w e a q h = Some (acts, ending)"
  shows "case ending of Returned \<Rightarrow> ended acts | Thrown message \<Rightarrow> filter isDone acts = []"
proof (cases "length (tools a) = 0")
  case True
  with assms show ?thesis
    by (auto simp: runJS_def ended_done)
next
  case False
  show ?thesis
  proof (cases "faultAt w AtStart (initialState e q h)")
    case None
    with False assms completed_loop_shape [of w e a "initialState e q h" acts ending]
    show ?thesis
      by (simp add: runJS_def)
  next
    case (Some f)
    with False assms show ?thesis
      by (cases f) (auto simp: runJS_def)
  qed
qed

subsection \<open>Runs that never end\<close>

lemma loopPassJS_goes_on:
  assumes "faultless w"
    and "callModel e a (modelCalls s) (currentPrompt s) = Inr (Message m, usage)"
    and "hasToolCalls m"
    and "\<forall>c x. Emit (ToolDenied x) \<notin> set (executeAll e m c)"
  shows "\<exists>acts s'. loopPassJS w e a s = Some (acts, Continue s')
           \<and> iteration (ctx s') = increment (iteration (ctx s))"
proof -
  let ?s1 = "(startPassJS s)\<lparr>overflowRetries := 0, modelCalls := Suc (modelCalls s)\<rparr>"
  let ?c2 = "contextAfterResponse (ctx ?s1) (Message m) usage"
  from assms(2) have "callModel e a (modelCalls (startPassJS s)) (currentPrompt (startPassJS s))
      = Inr (Message m, usage)"
    by (simp add: startPassJS_def)
  from attemptJS_responded [OF assms(1) this]
  have inner: "callModelLoopJS w e a (startPassJS s)
      = Some ([CallModel (currentPrompt s)], Continue (?s1, Message m, usage))"
    by (simp add: startPassJS_def)
  obtain toolActs c3 denied where batch:
    "consumeToolEvents (executeAll e m ?c2) ?c2 = (toolActs, c3, denied)"
    by (cases "consumeToolEvents (executeAll e m ?c2) ?c2")
  from consumeToolEvents_denied [of "executeAll e m ?c2" ?c2] batch assms(4)
  have allowed: "\<not> denied" by simp
  obtain cleared c4 where threshold: "manageContextThresholdJS w e a c3 = (cleared, c4)"
    by (cases "manageContextThresholdJS w e a c3")
  from manageContextThresholdJS_frame [OF threshold] consumeToolEvents_frame [OF batch]
  have "iteration c4 = increment (iteration (ctx s))"
    by (simp add: contextAfterResponse_iteration startPassJS_def)
  moreover from assms(1) have "executorFault w m ?c2 = None"
    by (simp add: faultless_def)
  ultimately show ?thesis
    using inner assms(1,3) batch allowed threshold
    by (simp add: loopPassJS_def unlessFault_faultless emitting_Some executeJS_def Let_def)
qed

lemma endless_loop:
  assumes "endless w e a s"
  shows "agentLoopJS w e a s = None"
proof -
  have "\<not> endless w e a s" if "agentLoopJS w e a s = Some y" for y
  proof (rule agentLoopJS.raw_induct [where P = "\<lambda>w e a s y. \<not> endless w e a s", OF _ that])
    fix loop :: "runtime \<Rightarrow> env \<Rightarrow> agent \<Rightarrow> loop_state \<Rightarrow> (action list \<times> ending) option"
    fix w e a s y
    assume ih: "\<And>w e a s y. loop w e a s = Some y \<Longrightarrow> \<not> endless w e a s"
      and body: "(if belowBudget (iteration (ctx s)) (iterationBudget w a) then
                    (case loopPassJS w e a s of
                       None \<Rightarrow> None
                     | Some (acts, Stop ending) \<Rightarrow> Some (acts, ending)
                     | Some (acts, Continue s') \<Rightarrow> emitting acts (loop w e a s'))
                  else
                    (case faultAt w AtBudgetDone s of
                       None \<Rightarrow> Some ([Yield (Done (doneEvent e (budgetMessage w a) (ctx s)))],
                                     Returned)
                     | Some (Throws message) \<Rightarrow> Some ([], Thrown message)
                     | Some NeverSettles \<Rightarrow> None)) = Some y"
    show "\<not> endless w e a s"
    proof
      assume run: "endless w e a s"
      then obtain m usage where call:
        "callModel e a (modelCalls s) (currentPrompt s) = Inr (Message m, usage)"
        "hasToolCalls m" "\<forall>c x. Emit (ToolDenied x) \<notin> set (executeAll e m c)"
        unfolding endless_def by blast
      from run have clean: "faultless w"
        by (simp add: endless_def)
      from run have below: "belowBudget (iteration (ctx s)) (iterationBudget w a)"
        by (auto simp: endless_def safeBudget_def belowBudget_def split: js_number.splits)
      from loopPassJS_goes_on [OF clean call] obtain acts s' where
        pass: "loopPassJS w e a s = Some (acts, Continue s')"
        and it: "iteration (ctx s') = increment (iteration (ctx s))"
        by blast
      from body below pass obtain rest where "loop w e a s' = Some (rest, snd y)"
        by (cases y) (auto simp: emitting_eq_Some)
      from ih [OF this] have "\<not> endless w e a s'" .
      moreover from run it have "endless w e a s'"
        by (auto simp: endless_def increment_def)
      ultimately show False by simp
    qed
  qed
  with assms show ?thesis
    by (cases "agentLoopJS w e a s") auto
qed

subsection \<open>Exactly one terminal event\<close>

lemma example_runJS_search:
  "runJS (exampleRuntime None) (scriptedEnv toolThenAnswer searchExecutor)
     (exampleAgent 10 [''search'']) ''q'' None
   = Some ([CallModel ''q'', Yield (Thinking ''plan''),
      Yield (ToolEvent (ToolProgress ''tool_start'')),
      Yield (ToolEvent (ToolProgress ''tool_end'')),
      CallModel ''qsearchsearch'',
      Yield (Done \<lparr>answer = ''final'',
                    toolCalls = [\<lparr>tool = ''search'', args = ''{}'', result = Succeeded ''found''\<rparr>],
                    iterations = 2, totalTime = 100,
                    tokenUsage = Some \<lparr>promptTokens = 10, completionTokens = 20, totalTokens = 30\<rparr>,
                    tokensPerSecond = Some 300\<rparr>)], Returned)"
  by (simp add: runJS_defs run_defs example_defs toolThenAnswer_def searchCall_def
        searchExecutor_def exampleRuntime_def)

lemma example_runJS_thrown:
  "runJS failingExecutor (scriptedEnv toolThenAnswer searchExecutor) (exampleAgent 10 [''search''])
     ''q'' None
   = Some ([CallModel ''q'', Yield (Thinking ''plan''),
            Yield (ToolEvent (ToolProgress ''tool_start''))],
           Thrown ''ECONNRESET'')"
  by (simp add: runJS_defs run_defs example_defs toolThenAnswer_def searchCall_def
        searchExecutor_def failingExecutor_def exampleRuntime_def)

text \<open>
  Claim C5 says that the events of every run form a finite sequence with exactly one
  \<^verbatim>\<open>done\<close> event, in last place. Two runs show that this is not so for every run. In the
  first the tool executor throws after its first event: the exception is not caught by
  \<^verbatim>\<open>run\<close> (only \<^verbatim>\<open>callModel\<close> stands in the \<^verbatim>\<open>try\<close> block), the generator ends with it,
  and the two events emitted so far are all there is: no \<^verbatim>\<open>done\<close> event. In the second
  \<^verbatim>\<open>maxIterations\<close> is \<^verbatim>\<open>Infinity\<close> and the model asks for a tool at every call: the run
  never completes.
\<close>

theorem run_without_done:
  "runJS failingExecutor (scriptedEnv toolThenAnswer searchExecutor) (exampleAgent 10 [''search''])
     ''q'' None
   = Some ([CallModel ''q'', Yield (Thinking ''plan''),
            Yield (ToolEvent (ToolProgress ''tool_start''))],
           Thrown ''ECONNRESET'')
   \<and> filter isDoneEvent (events [CallModel ''q'', Yield (Thinking ''plan''),
                                  Yield (ToolEvent (ToolProgress ''tool_start''))]) = []
   \<and> runJS (exampleRuntime (Some PositiveInfinity)) (scriptedEnv alwaysTools searchExecutor)
        (exampleAgent 10 [''search'']) ''q'' None = None"
proof -
  let ?w = "exampleRuntime (Some PositiveInfinity)"
  let ?e = "scriptedEnv alwaysTools searchExecutor"
  let ?a = "exampleAgent 10 [''search'']"
  have "endless ?w ?e ?a (initialState ?e ''q'' None)"
    by (simp add: endless_def faultless_exampleRuntime safeBudget_def iterationBudget_def
          initialState_def createRunContext_def)
       (simp add: exampleRuntime_def callModel_def scriptedEnv_def alwaysTools_def
          searchCall_def hasToolCalls_def searchExecutor_def)
  from endless_loop [OF this] have "runJS ?w ?e ?a ''q'' None = None"
    by (simp add: runJS_def exampleRuntime_def exampleAgent_def)
  then show ?thesis
    by (simp add: example_runJS_thrown)
qed

text \<open>
  Claim C5 as it holds. If no collaborator other than the model call throws or fails to
  return, the model call settles, the executor completes, and \<^verbatim>\<open>maxIterations\<close> is
  \<^verbatim>\<open>NaN\<close>, \<^verbatim>\<open>-Infinity\<close> or a finite number not above \<open>2\<^sup>5\<^sup>3\<close>, then the run returns. The
  events of every run that returns form a finite sequence with exactly one \<^verbatim>\<open>done\<close>
  event, in last place: no event follows it. A run that ends with an exception has
  emitted no \<^verbatim>\<open>done\<close> event. (The executor emits tool events only, and the consumer
  is taken to request events until the generator completes.)
\<close>

theorem run_ends_with_single_done:
  "(faultless w \<and> safeBudget (iterationBudget w a) \<longrightarrow>
      (\<exists>acts. runJS w e a q h = Some (acts, Returned)))
   \<and> (runJS w e a q h = Some (acts, Returned) \<longrightarrow>
        (\<exists>evs d. events acts = evs @ [Done d] \<and> filter isDoneEvent evs = []
           \<and> last (events acts) = Done d
           \<and> length (filter isDoneEvent (events acts)) = 1))
   \<and> (runJS w e a q h = Some (acts, Thrown message) \<longrightarrow>
        filter isDoneEvent (events acts) = [])"
proof -
  have "\<exists>acts. runJS w e a q h = Some (acts, Returned)"
    if clean: "faultless w" and safe: "safeBudget (iterationBudget w a)"
  proof (cases "length (tools a) = 0")
    case True
    then show ?thesis
      by (simp add: runJS_def)
  next
    case False
    with clean ended_not_thrown [OF clean safe, of e "initialState e q h"] show ?thesis
      by (auto simp: runJS_def faultless_def)
  qed
  moreover have "\<exists>evs d. events acts = evs @ [Done d] \<and> filter isDoneEvent evs = []
           \<and> last (events acts) = Done d
           \<and> length (filter isDoneEvent (events acts)) = 1"
    if "runJS w e a q h = Some (acts, Returned)"
  proof -
    from completed_run_shape [OF that] obtain pre d where
      "acts = pre @ [Yield (Done d)]" "filter isDone pre = []"
      unfolding ended_def by auto
    then have "events acts = events pre @ [Done d]" "filter isDoneEvent (events pre) = []"
      by (simp_all add: events_append events_filter_done)
    then show ?thesis by auto
  qed
  moreover have "filter isDoneEvent (events acts) = []"
    if "runJS w e a q h = Some (acts, Thrown message)"
    using completed_run_shape [OF that] by (simp add: events_filter_done)
  ultimately show ?thesis by blast
qed

text \<open>
  The theorem at the example run with one tool call (three events, then \<^verbatim>\<open>done\<close>) and
  at the run whose executor throws.
\<close>

theorem run_ends_with_single_done_witness:
  "faultless (exampleRuntime None)
   \<and> safeBudget (iterationBudget (exampleRuntime None) (exampleAgent 10 [''search'']))
   \<and> runJS (exampleRuntime None) (scriptedEnv toolThenAnswer searchExecutor)
        (exampleAgent 10 [''search'']) ''q'' None
       = Some ([CallModel ''q'', Yield (Thinking ''plan''),
                Yield (ToolEvent (ToolProgress ''tool_start'')),
                Yield (ToolEvent (ToolProgress ''tool_end'')),
                CallModel ''qsearchsearch'',
                Yield (Done \<lparr>answer = ''final'',
                   toolCalls = [\<lparr>tool = ''search'', args = ''{}'', result = Succeeded ''found''\<rparr>],
                   iterations = 2, totalTime = 100,
                   tokenUsage = Some \<lparr>promptTokens = 10, completionTokens = 20, totalTokens = 30\<rparr>,
                   tokensPerSecond = Some 300\<rparr>)], Returned)
   \<and> length (filter isDoneEvent (events
        [CallModel ''q'', Yield (Thinking ''plan''),
                Yield (ToolEvent (ToolProgress ''tool_start'')),
                Yield (ToolEvent (ToolProgress ''tool_end'')),
                CallModel ''qsearchsearch'',
                Yield (Done \<lparr>answer = ''final'',
                   toolCalls = [\<lparr>tool = ''search'', args = ''{}'', result = Succeeded ''found''\<rparr>],
                   iterations = 2, totalTime = 100,
                   tokenUsage = Some \<lparr>promptTokens = 10, completionTokens = 20, totalTokens = 30\<rparr>,
                   tokensPerSecond = Some 300\<rparr>)])) = 1
   \<and> runJS failingExecutor (scriptedEnv toolThenAnswer searchExecutor)
        (exampleAgent 10 [''search'']) ''q'' None
       = Some ([CallModel ''q'', Yield (Thinking ''plan''),
                Yield (ToolEvent (ToolProgress ''tool_start''))],
               Thrown ''ECONNRESET'')
   \<and> filter isDoneEvent (events [CallModel ''q'', Yield (Thinking ''plan''),
                                  Yield (ToolEvent (ToolProgress ''tool_start''))]) = []"
proof -
  let ?e = "scriptedEnv toolThenAnswer searchExecutor"
  let ?a = "exampleAgent 10 [''search'']"
  have safe: "safeBudget (iterationBudget (exampleRuntime None) ?a)"
    by (simp add: safeBudget_def iterationBudget_def exampleRuntime_def exampleAgent_def)
  note returned = run_ends_with_single_done [of "exampleRuntime None" ?a ?e "''q''" None
      "[CallModel ''q'', Yield (Thinking ''plan''),
                Yield (ToolEvent (ToolProgress ''tool_start'')),
                Yield (ToolEvent (ToolProgress ''tool_end'')),
                CallModel ''qsearchsearch'',
                Yield (Done \<lparr>answer = ''final'',
                   toolCalls = [\<lparr>tool = ''search'', args = ''{}'', result = Succeeded ''found''\<rparr>],
                   iterations = 2, totalTime = 100,
                   tokenUsage = Some \<lparr>promptTokens = 10, completionTokens = 20, totalTokens = 30\<rparr>,
                   tokensPerSecond = Some 300\<rparr>)]"]
  note thrown = run_ends_with_single_done [of failingExecutor ?a ?e "''q''" None
      "[CallModel ''q'', Yield (Thinking ''plan''),
        Yield (ToolEvent (ToolProgress ''tool_start''))]" "''ECONNRESET''"]
  from returned thrown faultless_exampleRuntime [of None] safe show ?thesis
    by (simp add: example_runJS_search example_runJS_thrown)
qed


section \<open>Properties of \<^verbatim>\<open>financial_search\<close>\<close>

lemma foldl_update_other:
  "\<forall>r \<in> set rs. key r \<noteq> k \<Longrightarrow>
     map_of (foldl (\<lambda>combined r. AList.update (key r) (val r) combined) acc rs) k = map_of acc k"
  by (induction rs arbitrary: acc) (auto simp: AList.update_conv')

lemma foldl_update_last:
  assumes "\<forall>r \<in> set after. key r \<noteq> key x"
  shows "map_of (foldl (\<lambda>combined r. AList.update (key r) (val r) combined) acc (before @ x # after))
           (key x) = Some (val x)"
  using foldl_update_other [OF assms, of val] by (simp add: AList.update_conv')

lemma foldl_update_dom:
  "x \<in> set rs \<Longrightarrow>
     \<exists>v. map_of (foldl (\<lambda>combined r. AList.update (key r) (val r) combined) acc rs) (key x) = Some v"
proof (induction rs arbitrary: acc rule: rev_induct)
  case Nil
  then show ?case by simp
next
  case (snoc r rs)
  then show ?case by (cases "key r = key x") (auto simp: AList.update_conv')
qed

lemma executeSubTool_fields:
  "res_tool (executeSubTool e tc) = sub_name tc" "res_args (executeSubTool e tc) = sub_args tc"
  by (simp_all add: executeSubTool_def split: sum.splits prod.splits)

lemma executeSubTool_failed:
  "trySubTool e tc = Inl message \<Longrightarrow>
     executeSubTool e tc = \<lparr>res_tool = sub_name tc, res_args = sub_args tc, res_data = Some JNull,
                             res_sourceUrls = JArray [], res_error = Some message\<rparr>"
  by (simp add: executeSubTool_def)

lemma executeSubTool_succeeded:
  "res_error (executeSubTool e tc) = None \<Longrightarrow> FINANCE_TOOL_MAP e (sub_name tc) \<noteq> None"
  by (auto simp: executeSubTool_def trySubTool_def split: sum.splits prod.splits option.splits)

lemma resultKey_not_errors:
  assumes "res_tool r \<noteq> []" and "hd (res_tool r) \<noteq> CHR ''_''"
  shows "resultKey e r \<noteq> ''_errors''"
proof -
  from assms obtain c cs where "res_tool r = c # cs" "c \<noteq> CHR ''_''"
    by (cases "res_tool r") auto
  then show ?thesis
    by (auto simp: resultKey_def split: option.splits)
qed


lemma successData_no_errors_key:
  assumes "\<forall>name. FINANCE_TOOL_MAP e name \<noteq> None \<longrightarrow> name \<noteq> [] \<and> hd name \<noteq> CHR ''_''"
  shows "map_of (successData e (map (executeSubTool e) tcs)) ''_errors'' = None"
proof -
  have "\<forall>r \<in> set (successfulResults (map (executeSubTool e) tcs)). resultKey e r \<noteq> ''_errors''"
  proof
    fix r assume "r \<in> set (successfulResults (map (executeSubTool e) tcs))"
    then obtain tc where "r = executeSubTool e tc" "res_error (executeSubTool e tc) = None"
      by (auto simp: successfulResults_def)
    with executeSubTool_succeeded [of e tc] assms show "resultKey e r \<noteq> ''_errors''"
      by (intro resultKey_not_errors) (simp_all add: executeSubTool_fields)
  qed
  from foldl_update_other [OF this, of res_data "[]"] show ?thesis
    by (simp add: successData_def)
qed

lemma combinedData_errors:
  assumes "\<forall>name. FINANCE_TOOL_MAP e name \<noteq> None \<longrightarrow> name \<noteq> [] \<and> hd name \<noteq> CHR ''_''"
  shows "map_of (combinedData e (map (executeSubTool e) tcs)) ''_errors'' =
           (if failedResults (map (executeSubTool e) tcs) = [] then None
            else Some (Some (JArray (map errorEntry (failedResults (map (executeSubTool e) tcs))))))"
  using successData_no_errors_key [OF assms, of tcs]
  by (simp add: combinedData_def AList.update_conv')

lemma combinedData_other:
  "k \<noteq> ''_errors'' \<Longrightarrow> map_of (combinedData e results) k = map_of (successData e results) k"
  by (simp add: combinedData_def AList.update_conv')

text \<open>
  Claim C10. Let the router model return a non-empty batch of sub-tool calls. Then the
  function of the tool returns (it does not throw), whatever the sub-tools do. A call
  whose name is not registered fails with the "not found" message, a call whose
  invocation throws fails with the message thrown, and every failed call is an entry
  \<^verbatim>\<open>{tool, args, error}\<close> of the \<^verbatim>\<open>_errors\<close> list of the combined result. Every successful
  call has its key in the combined result, the tool name or the tool name joined to the
  ticker by an underscore; the value under that key is the data of the last successful
  call with this key, whatever calls failed. The registry is a parameter (all but one
  of its tools are outside the sources); it is assumed that no registered name is empty
  or starts with an underscore (the names the sources show all start with \<^verbatim>\<open>get_\<close>), so
  that no key of a successful call is \<^verbatim>\<open>_errors\<close>.
\<close>

theorem financial_search_isolates_failures:
  assumes "routerLlm e modelName q = Inr (Some tcs)" and "tcs \<noteq> []"
    and "\<forall>name. FINANCE_TOOL_MAP e name \<noteq> None \<longrightarrow> name \<noteq> [] \<and> hd name \<noteq> CHR ''_''"
  shows "financialSearch e modelName q =
           Inr (formatToolResult e (combinedData e (map (executeSubTool e) tcs))
                  (allUrls (map (executeSubTool e) tcs)))
     \<and> (\<forall>tc \<in> set tcs. FINANCE_TOOL_MAP e (sub_name tc) = None \<longrightarrow>
           trySubTool e tc = Inl (notFoundMessage (sub_name tc)))
     \<and> (\<forall>tc \<in> set tcs. \<forall>financeTool message.
           FINANCE_TOOL_MAP e (sub_name tc) = Some financeTool
           \<and> financeTool (sub_args tc) = Inl message \<longrightarrow> trySubTool e tc = Inl message)
     \<and> (\<forall>tc \<in> set tcs. \<forall>message. trySubTool e tc = Inl message \<longrightarrow>
           (\<exists>entries. map_of (combinedData e (map (executeSubTool e) tcs)) ''_errors''
                         = Some (Some (JArray entries))
              \<and> JObject [(''tool'', JString (sub_name tc)), (''args'', JObject (sub_args tc)),
                          (''error'', JString message)] \<in> set entries))
     \<and> (\<forall>tc \<in> set tcs. \<forall>d urls. trySubTool e tc = Inr (d, urls) \<longrightarrow>
           (\<exists>v. map_of (combinedData e (map (executeSubTool e) tcs))
                   (resultKey e (executeSubTool e tc)) = Some v))
     \<and> (\<forall>before tc after d urls.
           tcs = before @ tc # after \<and> trySubTool e tc = Inr (d, urls)
           \<and> (\<forall>later \<in> set after. res_error (executeSubTool e later) = None \<longrightarrow>
                  resultKey e (executeSubTool e later) \<noteq> resultKey e (executeSubTool e tc)) \<longrightarrow>
           map_of (combinedData e (map (executeSubTool e) tcs))
             (resultKey e (executeSubTool e tc)) = Some d)
     \<and> (\<forall>tc t. map_of (sub_args tc) ''ticker'' = Some (JString t) \<and> t \<noteq> [] \<longrightarrow>
           resultKey e (executeSubTool e tc) = sub_name tc @ ''_'' @ t)
     \<and> (\<forall>tc. map_of (sub_args tc) ''ticker'' = None \<longrightarrow>
           resultKey e (executeSubTool e tc) = sub_name tc)"
proof -
  let ?results = "map (executeSubTool e) tcs"
  have returns: "financialSearch e modelName q =
      Inr (formatToolResult e (combinedData e ?results) (allUrls ?results))"
    using assms(1,2) by (simp add: financialSearch_def Let_def)
  have unknown: "\<forall>tc \<in> set tcs. FINANCE_TOOL_MAP e (sub_name tc) = None \<longrightarrow>
      trySubTool e tc = Inl (notFoundMessage (sub_name tc))"
    by (simp add: trySubTool_def)
  have throws: "\<forall>tc \<in> set tcs. \<forall>financeTool message.
      FINANCE_TOOL_MAP e (sub_name tc) = Some financeTool
      \<and> financeTool (sub_args tc) = Inl message \<longrightarrow> trySubTool e tc = Inl message"
    by (simp add: trySubTool_def)
  have errors: "\<forall>tc \<in> set tcs. \<forall>message. trySubTool e tc = Inl message \<longrightarrow>
      (\<exists>entries. map_of (combinedData e ?results) ''_errors'' = Some (Some (JArray entries))
         \<and> JObject [(''tool'', JString (sub_name tc)), (''args'', JObject (sub_args tc)),
                     (''error'', JString message)] \<in> set entries)"
  proof (intro ballI allI impI)
    fix tc message
    assume tc: "tc \<in> set tcs" and failed: "trySubTool e tc = Inl message"
    let ?r = "executeSubTool e tc"
    from executeSubTool_failed [OF failed] have r: "res_error ?r = Some message"
      "errorEntry ?r = JObject [(''tool'', JString (sub_name tc)), (''args'', JObject (sub_args tc)),
                                (''error'', JString message)]"
      by (simp_all add: errorEntry_def)
    with tc have member: "?r \<in> set (failedResults ?results)"
      by (simp add: failedResults_def)
    then have "failedResults ?results \<noteq> []" by auto
    with combinedData_errors [OF assms(3), of tcs]
    have "map_of (combinedData e ?results) ''_errors''
        = Some (Some (JArray (map errorEntry (failedResults ?results))))"
      by simp
    moreover from member r(2) have
      "JObject [(''tool'', JString (sub_name tc)), (''args'', JObject (sub_args tc)),
                (''error'', JString message)] \<in> set (map errorEntry (failedResults ?results))"
      by (metis image_eqI set_map)
    ultimately show "\<exists>entries. map_of (combinedData e ?results) ''_errors''
          = Some (Some (JArray entries))
        \<and> JObject [(''tool'', JString (sub_name tc)), (''args'', JObject (sub_args tc)),
                    (''error'', JString message)] \<in> set entries"
      by blast
  qed
  have key_ok: "resultKey e (executeSubTool e tc) \<noteq> ''_errors''"
    if "trySubTool e tc = Inr (d, urls)" for tc d urls
  proof -
    from that have "FINANCE_TOOL_MAP e (sub_name tc) \<noteq> None"
      by (auto simp: trySubTool_def split: option.splits)
    with assms(3) show ?thesis
      by (intro resultKey_not_errors) (simp_all add: executeSubTool_fields)
  qed
  have present: "\<forall>tc \<in> set tcs. \<forall>d urls. trySubTool e tc = Inr (d, urls) \<longrightarrow>
      (\<exists>v. map_of (combinedData e ?results) (resultKey e (executeSubTool e tc)) = Some v)"
  proof (intro ballI allI impI)
    fix tc d urls
    assume tc: "tc \<in> set tcs" and ok: "trySubTool e tc = Inr (d, urls)"
    then have "res_error (executeSubTool e tc) = None"
      by (simp add: executeSubTool_def)
    with tc have "executeSubTool e tc \<in> set (successfulResults ?results)"
      by (auto simp: successfulResults_def)
    from foldl_update_dom [OF this, of "resultKey e" res_data "[]"] key_ok [OF ok]
    show "\<exists>v. map_of (combinedData e ?results) (resultKey e (executeSubTool e tc)) = Some v"
      by (simp add: combinedData_other successData_def)
  qed
  have last_wins: "\<forall>before tc after d urls.
      tcs = before @ tc # after \<and> trySubTool e tc = Inr (d, urls)
      \<and> (\<forall>later \<in> set after. res_error (executeSubTool e later) = None \<longrightarrow>
             resultKey e (executeSubTool e later) \<noteq> resultKey e (executeSubTool e tc)) \<longrightarrow>
      map_of (combinedData e ?results) (resultKey e (executeSubTool e tc)) = Some d"
  proof (intro allI impI)
    fix before tc after d urls
    assume asm: "tcs = before @ tc # after \<and> trySubTool e tc = Inr (d, urls)
      \<and> (\<forall>later \<in> set after. res_error (executeSubTool e later) = None \<longrightarrow>
             resultKey e (executeSubTool e later) \<noteq> resultKey e (executeSubTool e tc))"
    let ?r = "executeSubTool e tc"
    from asm have r: "res_error ?r = None" "res_data ?r = d"
      by (simp_all add: executeSubTool_def)
    with asm have split: "successfulResults ?results
        = successfulResults (map (executeSubTool e) before) @ ?r
            # successfulResults (map (executeSubTool e) after)"
      by (simp add: successfulResults_def)
    from asm have "\<forall>x \<in> set (successfulResults (map (executeSubTool e) after)).
        resultKey e x \<noteq> resultKey e ?r"
      by (auto simp: successfulResults_def)
    from foldl_update_last [OF this, of res_data "[]"
        "successfulResults (map (executeSubTool e) before)"] split r(2)
    have "map_of (successData e ?results) (resultKey e ?r) = Some d"
      by (simp add: successData_def)
    with key_ok [of tc d urls] asm
    show "map_of (combinedData e ?results) (resultKey e ?r) = Some d"
      by (simp add: combinedData_other)
  qed
  have keys: "\<forall>tc t. map_of (sub_args tc) ''ticker'' = Some (JString t) \<and> t \<noteq> [] \<longrightarrow>
      resultKey e (executeSubTool e tc) = sub_name tc @ ''_'' @ t"
    "\<forall>tc. map_of (sub_args tc) ''ticker'' = None \<longrightarrow>
      resultKey e (executeSubTool e tc) = sub_name tc"
    by (simp_all add: resultKey_def executeSubTool_fields truthy_def)
  from returns unknown throws errors present last_wins keys show ?thesis
    by blast
qed

text \<open>
  The theorem at a batch of four calls: two stock prices that succeed, an unregistered
  tool and a tool that throws.
\<close>

theorem financial_search_isolates_failures_witness:
  "routerLlm exampleFsEnv ''gpt-5.2'' ''AAPL and MSFT price'' = Inr (Some exampleBatch)
   \<and> exampleBatch \<noteq> []
   \<and> {name. FINANCE_TOOL_MAP exampleFsEnv name \<noteq> None}
       = {''get_stock_price'', ''get_income_statements''}
   \<and> trySubTool exampleFsEnv \<lparr>sub_name = ''get_magic'', sub_args = []\<rparr>
       = Inl (notFoundMessage ''get_magic'')
   \<and> trySubTool exampleFsEnv
        \<lparr>sub_name = ''get_income_statements'', sub_args = [(''ticker'', JString ''AAPL'')]\<rparr>
       = Inl ''Request failed''
   \<and> trySubTool exampleFsEnv
        \<lparr>sub_name = ''get_stock_price'', sub_args = [(''ticker'', JString ''AAPL'')]\<rparr>
       = Inr (Some (JNumber 190), JArray [JString ''yahoo/AAPL''])
   \<and> combinedData exampleFsEnv (map (executeSubTool exampleFsEnv) exampleBatch)
       = [(''get_stock_price_AAPL'', Some (JNumber 190)),
          (''get_stock_price_MSFT'', Some (JNumber 410)),
          (''_errors'',
           Some (JArray
             [JObject [(''tool'', JString ''get_magic''), (''args'', JObject []),
                       (''error'', JString (notFoundMessage ''get_magic''))],
              JObject [(''tool'', JString ''get_income_statements''),
                       (''args'', JObject [(''ticker'', JString ''AAPL'')]),
                       (''error'', JString ''Request failed'')]]))]
   \<and> map_of (combinedData exampleFsEnv (map (executeSubTool exampleFsEnv) exampleBatch))
        ''get_stock_price_AAPL'' = Some (Some (JNumber 190))
   \<and> financialSearch exampleFsEnv ''gpt-5.2'' ''AAPL and MSFT price''
       = Inr ''get_stock_price_AAPLget_stock_price_MSFT_errors''"
proof -
  let ?e = exampleFsEnv
  let ?aapl = "\<lparr>sub_name = ''get_stock_price'', sub_args = [(''ticker'', JString ''AAPL'')]\<rparr>"
  note ex = exampleFsEnv_def exampleRegistry_def exampleBatch_def trySubTool_def
    executeSubTool_def truthy_def
  have router: "routerLlm ?e ''gpt-5.2'' ''AAPL and MSFT price'' = Inr (Some exampleBatch)"
    and nonempty: "exampleBatch \<noteq> []"
    by (simp_all add: exampleFsEnv_def exampleBatch_def)
  have names: "\<forall>name. FINANCE_TOOL_MAP ?e name \<noteq> None \<longrightarrow> name \<noteq> [] \<and> hd name \<noteq> CHR ''_''"
    by (auto simp: exampleFsEnv_def exampleRegistry_def split: if_splits)
  have registry: "{name. FINANCE_TOOL_MAP ?e name \<noteq> None}
      = {''get_stock_price'', ''get_income_statements''}"
    by (auto simp: exampleFsEnv_def exampleRegistry_def split: if_splits)
  have calls: "trySubTool ?e \<lparr>sub_name = ''get_magic'', sub_args = []\<rparr>
        = Inl (notFoundMessage ''get_magic'')"
    "trySubTool ?e \<lparr>sub_name = ''get_income_statements'',
                     sub_args = [(''ticker'', JString ''AAPL'')]\<rparr> = Inl ''Request failed''"
    "trySubTool ?e ?aapl = Inr (Some (JNumber 190), JArray [JString ''yahoo/AAPL''])"
    by (simp_all add: ex)
  have combined: "combinedData ?e (map (executeSubTool ?e) exampleBatch)
       = [(''get_stock_price_AAPL'', Some (JNumber 190)),
          (''get_stock_price_MSFT'', Some (JNumber 410)),
          (''_errors'',
           Some (JArray
             [JObject [(''tool'', JString ''get_magic''), (''args'', JObject []),
                       (''error'', JString (notFoundMessage ''get_magic''))],
              JObject [(''tool'', JString ''get_income_statements''),
                       (''args'', JObject [(''ticker'', JString ''AAPL'')]),
                       (''error'', JString ''Request failed'')]]))]"
    by (simp add: ex combinedData_def successData_def successfulResults_def failedResults_def
          resultKey_def errorEntry_def)
  note isolated = financial_search_isolates_failures [OF router nonempty names]
  from isolated have "financialSearch ?e ''gpt-5.2'' ''AAPL and MSFT price''
      = Inr (formatToolResult ?e (combinedData ?e (map (executeSubTool ?e) exampleBatch))
               (allUrls (map (executeSubTool ?e) exampleBatch)))"
    by blast
  then have returned: "financialSearch ?e ''gpt-5.2'' ''AAPL and MSFT price''
      = Inr ''get_stock_price_AAPLget_stock_price_MSFT_errors''"
    unfolding combined by (simp add: exampleFsEnv_def)
  have later: "\<forall>later \<in> set (tl exampleBatch).
      res_error (executeSubTool ?e later) = None \<longrightarrow>
        resultKey ?e (executeSubTool ?e later) \<noteq> resultKey ?e (executeSubTool ?e ?aapl)"
    by (simp add: ex resultKey_def)
  from isolated have "\<forall>before tc after d urls.
           exampleBatch = before @ tc # after \<and> trySubTool ?e tc = Inr (d, urls)
           \<and> (\<forall>later \<in> set after. res_error (executeSubTool ?e later) = None \<longrightarrow>
                  resultKey ?e (executeSubTool ?e later) \<noteq> resultKey ?e (executeSubTool ?e tc)) \<longrightarrow>
           map_of (combinedData ?e (map (executeSubTool ?e) exampleBatch))
             (resultKey ?e (executeSubTool ?e tc)) = Some d"
    by blast
  from this [rule_format, of "[]" ?aapl "tl exampleBatch" "Some (JNumber 190)"
      "JArray [JString ''yahoo/AAPL'']"] calls(3) later
  have "map_of (combinedData ?e (map (executeSubTool ?e) exampleBatch))
      (resultKey ?e (executeSubTool ?e ?aapl)) = Some (Some (JNumber 190))"
    by (simp add: exampleBatch_def)
  then have looked_up: "map_of (combinedData ?e (map (executeSubTool ?e) exampleBatch))
      ''get_stock_price_AAPL'' = Some (Some (JNumber 190))"
    by (simp add: resultKey_def executeSubTool_fields truthy_def)
  from router nonempty registry calls combined looked_up returned show ?thesis
    by blast
qed


end
